theory Spec2Isabelle
  imports Main "HOL-Library.AList"
begin

section \<open>Values, errors and the remote service\<close>

text \<open>
  The script \<^verbatim>\<open>yt.py\<close> works on the parsed JSON documents of the YouTube Data API:
  Python dicts, lists, strings, integers, booleans and \<^verbatim>\<open>None\<close>.  A dict keeps its
  insertion order and has unique keys, so an object is an association list that is read
  with \<^const>\<open>map_of\<close> and written with \<^const>\<open>AList.update\<close> (an existing key keeps its
  place, a new key goes to the end).  Floating point numbers are not modelled.
\<close>

datatype json =
    JNull
  | JBool bool
  | JInt int
  | JStr string
  | JList "json list"
  | JObj "(string \<times> json) list"

text \<open>
  The exceptions that can end a call.  \<open>SystemExit n\<close> is \<^verbatim>\<open>sys.exit(n)\<close>, which only
  the script itself raises; \<open>Raised msg\<close> is any exception that an external collaborator
  (the HTTP client, the OAuth library) raises.
\<close>

datatype error =
    SystemExit int
  | KeyError string
  | IndexError
  | TypeError
  | AttributeError
  | Raised string

text \<open>Python's truth value of an object, as \<^verbatim>\<open>if x\<close> and \<^verbatim>\<open>not x\<close> read it.\<close>

fun truthy :: "json \<Rightarrow> bool" where
  "truthy JNull = False"
| "truthy (JBool b) = b"
| "truthy (JInt n) = (n \<noteq> 0)"
| "truthy (JStr s) = (s \<noteq> [])"
| "truthy (JList xs) = (xs \<noteq> [])"
| "truthy (JObj d) = (d \<noteq> [])"

text \<open>\<^verbatim>\<open>x.get(k, default)\<close>: only a dict has the method.\<close>

fun py_get :: "json \<Rightarrow> string \<Rightarrow> json \<Rightarrow> error + json" where
  "py_get (JObj d) k dflt = Inr (case map_of d k of Some v \<Rightarrow> v | None \<Rightarrow> dflt)"
| "py_get _ k dflt = Inl AttributeError"

text \<open>\<^verbatim>\<open>x[k]\<close> for a string \<open>k\<close>: a missing key raises, and nothing but a dict takes a
  string subscript.\<close>

fun py_getitem :: "json \<Rightarrow> string \<Rightarrow> error + json" where
  "py_getitem (JObj d) k = (case map_of d k of Some v \<Rightarrow> Inr v | None \<Rightarrow> Inl (KeyError k))"
| "py_getitem _ k = Inl TypeError"

text \<open>\<^verbatim>\<open>x[0]\<close>.  The keys of a parsed JSON object are strings, so the integer key
  \<open>0\<close> is never among them.\<close>

fun py_getitem0 :: "json \<Rightarrow> error + json" where
  "py_getitem0 (JList []) = Inl IndexError"
| "py_getitem0 (JList (x # xs)) = Inr x"
| "py_getitem0 (JStr []) = Inl IndexError"
| "py_getitem0 (JStr (c # cs)) = Inr (JStr [c])"
| "py_getitem0 (JObj d) = Inl (KeyError ''0'')"
| "py_getitem0 _ = Inl TypeError"

text \<open>\<^verbatim>\<open>x[k] = v\<close> for a string \<open>k\<close>.\<close>

fun py_setitem :: "json \<Rightarrow> string \<Rightarrow> json \<Rightarrow> error + json" where
  "py_setitem (JObj d) k v = Inr (JObj (AList.update k v d))"
| "py_setitem _ k v = Inl TypeError"

text \<open>Iterating over an object, as \<^verbatim>\<open>list.extend\<close> and \<^verbatim>\<open>for\<close> do: a list gives
  its elements, a dict its keys, a string its characters; nothing else is iterable.\<close>

fun py_iter :: "json \<Rightarrow> error + json list" where
  "py_iter (JList xs) = Inr xs"
| "py_iter (JObj d) = Inr (map (\<lambda>p. JStr (fst p)) d)"
| "py_iter (JStr s) = Inr (map (\<lambda>c. JStr [c]) s)"
| "py_iter _ = Inl TypeError"

text \<open>The slice \<^verbatim>\<open>xs[:k]\<close> of a list: a negative \<open>k\<close> counts from the end.\<close>

definition py_take :: "int \<Rightarrow> 'a list \<Rightarrow> 'a list" where
  "py_take k xs = (if 0 \<le> k then take (nat k) xs else take (length xs - nat (- k)) xs)"

text \<open>
  A remote call \<^verbatim>\<open>youtube.videos().list(part=..., id=...).execute()\<close> is a request:
  the name of the resource method and its keyword arguments.  The remote service is a
  function from a request and the state of the world to a reply (a parsed document, or
  the message of the exception that the client raises) and the next state of the world;
  nothing is assumed about it.  The state that the model threads through every call
  records each request together with its reply, and the lines printed on the two output
  streams.  A printed line is a list of fragments: literal text, or a value formatted by
  Python's \<^verbatim>\<open>str\<close>.
\<close>

datatype request = Req string "(string \<times> json) list"

datatype frag = Lit string | Val json

type_synonym reply = "string + json"

type_synonym ('w) api = "request \<Rightarrow> 'w \<Rightarrow> reply \<times> 'w"

record 'w state =
  world :: 'w
  trace :: "(request \<times> reply) list"
  stdout :: "frag list list"
  stderr :: "frag list list"

definition reply_result :: "reply \<Rightarrow> error + json" where
  "reply_result r = (case r of Inl msg \<Rightarrow> Inl (Raised msg) | Inr doc \<Rightarrow> Inr doc)"

definition execute :: "'w api \<Rightarrow> request \<Rightarrow> 'w state \<Rightarrow> (error + json) \<times> 'w state" where
  "execute yt req s =
     (case yt req (world s) of
        (r, w) \<Rightarrow> (reply_result r, s\<lparr>world := w, trace := trace s @ [(req, r)]\<rparr>))"

definition requests :: "'w state \<Rightarrow> request list" where
  "requests s = map fst (trace s)"

definition print_out :: "frag list \<Rightarrow> 'w state \<Rightarrow> 'w state" where
  "print_out l s = s\<lparr>stdout := stdout s @ [l]\<rparr>"

definition print_err :: "frag list \<Rightarrow> 'w state \<Rightarrow> 'w state" where
  "print_err l s = s\<lparr>stderr := stderr s @ [l]\<rparr>"

section \<open>The paginator\<close>

text \<open>
  \<^verbatim>\<open>_paginate(method, params, *, key="items", limit=None)\<close>.  \<open>method\<close> is any
  callable that performs one list call with the given keyword arguments.  The loop ends
  only when a reply carries no (truthy) \<^verbatim>\<open>nextPageToken\<close> or the limit is reached, so
  against a service that always sends a token it never returns: the model is a partial
  function, and \<open>None\<close> stands for a run that does not end.
\<close>

definition limit_reached :: "int option \<Rightarrow> 'a list \<Rightarrow> bool" where
  "limit_reached limit collected =
     (case limit of None \<Rightarrow> False | Some k \<Rightarrow> k \<le> int (length collected))"

definition truncate_collected :: "int option \<Rightarrow> 'a list \<Rightarrow> 'a list" where
  "truncate_collected limit collected =
     (case limit of
        None \<Rightarrow> collected
      | Some k \<Rightarrow> if k \<noteq> 0 then py_take k collected else collected)"

text \<open>\<^verbatim>\<open>if next_page: params = {**params, "pageToken": next_page}\<close>\<close>

definition page_params :: "(string \<times> json) list \<Rightarrow> json \<Rightarrow> (string \<times> json) list" where
  "page_params params next_page =
     (if truthy next_page then AList.update ''pageToken'' next_page params else params)"

partial_function (option) paginate_loop ::
  "((string \<times> json) list \<Rightarrow> 's \<Rightarrow> (error + json) \<times> 's) \<Rightarrow> string \<Rightarrow> int option \<Rightarrow>
   (string \<times> json) list \<Rightarrow> json list \<Rightarrow> json \<Rightarrow> 's \<Rightarrow> ((error + json list) \<times> 's) option"
where
  "paginate_loop method key limit params collected next_page s =
     (case method (page_params params next_page) s of
        (Inl e, s1) \<Rightarrow> Some (Inl e, s1)
      | (Inr resp, s1) \<Rightarrow>
          (case py_get resp key (JList []) of
             Inl e \<Rightarrow> Some (Inl e, s1)
           | Inr batch \<Rightarrow>
               (case py_iter batch of
                  Inl e \<Rightarrow> Some (Inl e, s1)
                | Inr items \<Rightarrow>
                    (case py_get resp ''nextPageToken'' JNull of
                       Inl e \<Rightarrow> Some (Inl e, s1)
                     | Inr np \<Rightarrow>
                         if \<not> truthy np \<or> limit_reached limit (collected @ items)
                         then Some (Inr (truncate_collected limit (collected @ items)), s1)
                         else paginate_loop method key limit (page_params params next_page)
                                (collected @ items) np s1))))"

declare paginate_loop.simps [code]

definition paginate ::
  "((string \<times> json) list \<Rightarrow> 's \<Rightarrow> (error + json) \<times> 's) \<Rightarrow> (string \<times> json) list \<Rightarrow>
   string \<Rightarrow> int option \<Rightarrow> 's \<Rightarrow> ((error + json list) \<times> 's) option" where
  "paginate method params key limit s = paginate_loop method key limit params [] JNull s"

text \<open>
  A list call of the client, \<^verbatim>\<open>youtube.playlistItems().list\<close> say, as the callable
  that \<^verbatim>\<open>_paginate\<close> receives.
\<close>

definition list_call ::
  "'w api \<Rightarrow> string \<Rightarrow> (string \<times> json) list \<Rightarrow> 'w state \<Rightarrow> (error + json) \<times> 'w state" where
  "list_call yt name params s = execute yt (Req name params) s"

definition init_state :: "'w \<Rightarrow> 'w state" where
  "init_state w = \<lparr>world = w, trace = [], stdout = [], stderr = []\<rparr>"

section \<open>A scripted service\<close>

text \<open>
  The service of a test: its state is the list of replies still to give, and each call
  takes the next one whatever the request is.  Once the script is used up a call raises.
  \<open>page_reply\<close> is the document of one page, with or without a cursor, and
  \<open>mock_pages front final\<close> is the script of a list operation that returns the pages of
  \<open>front\<close>, each with its cursor, and then the page \<open>final\<close> without one.
\<close>

definition scripted :: "reply list api" where
  "scripted req w = (case w of [] \<Rightarrow> (Inl ''StopIteration'', []) | r # rs \<Rightarrow> (r, rs))"

definition page_reply :: "json list \<Rightarrow> string option \<Rightarrow> json" where
  "page_reply items tok =
     JObj ((''items'', JList items) #
           (case tok of None \<Rightarrow> [] | Some t \<Rightarrow> [(''nextPageToken'', JStr t)]))"

definition mock_pages :: "(json list \<times> string) list \<Rightarrow> json list \<Rightarrow> reply list" where
  "mock_pages front final =
     map (\<lambda>p. Inr (page_reply (fst p) (Some (snd p)))) front @ [Inr (page_reply final None)]"

text \<open>
  Two functions of the pages alone, used to say what a run against the script does:
  \<open>stop_index limit acc front\<close> is the number of pages of \<open>front\<close> after which the loop
  goes on, and \<open>page_requests\<close> lists the requests of a run that receives the given
  cursors.
\<close>

fun stop_index :: "int option \<Rightarrow> 'a list \<Rightarrow> ('a list \<times> string) list \<Rightarrow> nat" where
  "stop_index limit acc [] = 0"
| "stop_index limit acc (p # rest) =
     (if limit_reached limit (acc @ fst p) then 0
      else Suc (stop_index limit (acc @ fst p) rest))"

fun page_requests ::
  "string \<Rightarrow> (string \<times> json) list \<Rightarrow> json \<Rightarrow> string list \<Rightarrow> request list" where
  "page_requests name params np [] = [Req name (page_params params np)]"
| "page_requests name params np (t # ts) =
     Req name (page_params params np) # page_requests name (page_params params np) (JStr t) ts"

section \<open>The batch detail fetcher\<close>

text \<open>
  \<^verbatim>\<open>_fetch_video_details(youtube, video_ids, part)\<close>.  The loop variable runs over
  \<^verbatim>\<open>range(0, len(video_ids), 50)\<close> and each batch is the slice \<^verbatim>\<open>video_ids[i : i + 50]\<close>,
  sent as one comma-separated string.  The result is a dict keyed by whatever the reply
  gives as an item's \<^verbatim>\<open>id\<close>; a list or a dict cannot be a key.  Keys are compared with
  HOL equality (Python would identify \<^verbatim>\<open>True\<close> and \<open>1\<close>; the ids of the API are
  strings).
\<close>

fun join_sep :: "string \<Rightarrow> string list \<Rightarrow> string" where
  "join_sep sep [] = []"
| "join_sep sep [x] = x"
| "join_sep sep (x # y # ys) = x @ sep @ join_sep sep (y # ys)"

definition py_range_step :: "nat \<Rightarrow> nat \<Rightarrow> nat list" where
  "py_range_step n step = map (\<lambda>j. j * step) [0..<(n + step - 1) div step]"

definition video_batches :: "string list \<Rightarrow> string list list" where
  "video_batches video_ids =
     map (\<lambda>i. take 50 (drop i video_ids)) (py_range_step (length video_ids) 50)"

fun hashable :: "json \<Rightarrow> bool" where
  "hashable (JList xs) = False"
| "hashable (JObj d) = False"
| "hashable _ = True"

fun store_items :: "(json \<times> json) list \<Rightarrow> json list \<Rightarrow> error + (json \<times> json) list" where
  "store_items details [] = Inr details"
| "store_items details (item # rest) =
     (case py_getitem item ''id'' of
        Inl e \<Rightarrow> Inl e
      | Inr k \<Rightarrow> if hashable k then store_items (AList.update k item details) rest
                else Inl TypeError)"

text \<open>\<^verbatim>\<open>resp.get("items", [])\<close>, iterated.\<close>

definition reply_items :: "json \<Rightarrow> error + json list" where
  "reply_items resp =
     (case py_get resp ''items'' (JList []) of Inl e \<Rightarrow> Inl e | Inr its \<Rightarrow> py_iter its)"

definition details_request :: "string \<Rightarrow> string list \<Rightarrow> request" where
  "details_request part batch =
     Req ''videos.list'' [(''part'', JStr part), (''id'', JStr (join_sep '','' batch))]"

fun fetch_batches ::
  "'w api \<Rightarrow> string \<Rightarrow> string list list \<Rightarrow> (json \<times> json) list \<Rightarrow> 'w state \<Rightarrow>
   (error + (json \<times> json) list) \<times> 'w state" where
  "fetch_batches yt part [] details s = (Inr details, s)"
| "fetch_batches yt part (batch # rest) details s =
     (case execute yt (details_request part batch) s of
        (Inl e, s1) \<Rightarrow> (Inl e, s1)
      | (Inr resp, s1) \<Rightarrow>
          (case reply_items resp of
             Inl e \<Rightarrow> (Inl e, s1)
           | Inr items \<Rightarrow>
               (case store_items details items of
                  Inl e \<Rightarrow> (Inl e, s1)
                | Inr details' \<Rightarrow> fetch_batches yt part rest details' s1)))"

definition fetch_video_details ::
  "'w api \<Rightarrow> string list \<Rightarrow> string \<Rightarrow> 'w state \<Rightarrow> (error + (json \<times> json) list) \<times> 'w state" where
  "fetch_video_details yt video_ids part s =
     fetch_batches yt part (video_batches video_ids) [] s"

text \<open>
  Two functions used to say what the dict returned holds: the key under which an item is
  stored, if it has one, and the key-item pairs of a list of items, in order.
\<close>

definition item_key :: "json \<Rightarrow> json option" where
  "item_key item =
     (case py_getitem item ''id'' of
        Inl e \<Rightarrow> None
      | Inr k \<Rightarrow> if hashable k then Some k else None)"

fun keyed :: "json list \<Rightarrow> (json \<times> json) list" where
  "keyed [] = []"
| "keyed (item # rest) =
     (case item_key item of None \<Rightarrow> keyed rest | Some k \<Rightarrow> (k, item) # keyed rest)"

section \<open>The update handler\<close>

text \<open>
  Strings of the command line and of CSV cells.  \<^verbatim>\<open>str.strip()\<close> removes white space
  at both ends; of Python's white space only the ASCII characters are modelled (a
  \<open>char\<close> is a byte).  \<^verbatim>\<open>s.split(sep)\<close> with a one-character separator gives at least
  one piece.  \<open>tag_list\<close> is the comprehension
  \<^verbatim>\<open>[t.strip() for t in s.split(sep) if t.strip()]\<close>.
\<close>

definition is_space :: "char \<Rightarrow> bool" where
  "is_space c = (c \<in> set [CHR 0x09, CHR 0x0A, CHR 0x0B, CHR 0x0C, CHR 0x0D,
                           CHR 0x1C, CHR 0x1D, CHR 0x1E, CHR 0x1F, CHR 0x20])"

definition strip :: "string \<Rightarrow> string" where
  "strip s = rev (dropWhile is_space (rev (dropWhile is_space s)))"

fun split_on :: "char \<Rightarrow> string \<Rightarrow> string list" where
  "split_on sep [] = [[]]"
| "split_on sep (c # cs) =
     (if c = sep then [] # split_on sep cs
      else (case split_on sep cs of [] \<Rightarrow> [[c]] | w # ws \<Rightarrow> (c # w) # ws))"

definition tag_list :: "char \<Rightarrow> string \<Rightarrow> json" where
  "tag_list sep s = JList [JStr (strip t). t \<leftarrow> split_on sep s, strip t \<noteq> []]"

text \<open>
  The parsed arguments of \<^verbatim>\<open>videos update\<close>: \<^verbatim>\<open>args.video_id\<close> and the six optional
  flags, \<open>None\<close> when a flag is not given (the fields carry the prefix \<open>arg_\<close>).
\<close>

record update_args =
  arg_video_id :: string
  arg_title :: "string option"
  arg_description :: "string option"
  arg_tags :: "string option"
  arg_category :: "string option"
  arg_privacy :: "string option"
  arg_publish_at :: "string option"

text \<open>
  One \<^verbatim>\<open>if args.x is not None: obj[key] = value; changed = True\<close> step on a pair of the
  object and the flag \<open>changed\<close>, and the six steps of the handler in their order
  (\<^verbatim>\<open>--publish-at\<close> assigns twice).  An assignment into a value that is not a dict
  raises.
\<close>

definition assign_if :: "json option \<Rightarrow> string \<Rightarrow> json \<times> bool \<Rightarrow> error + json \<times> bool" where
  "assign_if v key oc =
     (case v of
        None \<Rightarrow> Inr oc
      | Some x \<Rightarrow>
          (case py_setitem (fst oc) key x of Inl e \<Rightarrow> Inl e | Inr obj \<Rightarrow> Inr (obj, True)))"

definition update_fields :: "update_args \<Rightarrow> json \<Rightarrow> json \<Rightarrow> error + json \<times> json \<times> bool" where
  "update_fields args snippet status =
     (case assign_if (map_option JStr (arg_title args)) ''title'' (snippet, False) of
        Inl e \<Rightarrow> Inl e
      | Inr (sn1, c1) \<Rightarrow>
     (case assign_if (map_option JStr (arg_description args)) ''description'' (sn1, c1) of
        Inl e \<Rightarrow> Inl e
      | Inr (sn2, c2) \<Rightarrow>
     (case assign_if (map_option (tag_list CHR '','') (arg_tags args)) ''tags'' (sn2, c2) of
        Inl e \<Rightarrow> Inl e
      | Inr (sn3, c3) \<Rightarrow>
     (case assign_if (map_option JStr (arg_category args)) ''categoryId'' (sn3, c3) of
        Inl e \<Rightarrow> Inl e
      | Inr (sn4, c4) \<Rightarrow>
     (case assign_if (map_option JStr (arg_privacy args)) ''privacyStatus'' (status, c4) of
        Inl e \<Rightarrow> Inl e
      | Inr (st1, c5) \<Rightarrow>
     (case assign_if (map_option JStr (arg_publish_at args)) ''publishAt'' (st1, c5) of
        Inl e \<Rightarrow> Inl e
      | Inr (st2, c6) \<Rightarrow>
     (case assign_if (map_option (\<lambda>p. JStr ''private'') (arg_publish_at args))
             ''privacyStatus'' (st2, c6) of
        Inl e \<Rightarrow> Inl e
      | Inr (st3, c7) \<Rightarrow> Inr (sn4, st3, c7))))))))"

text \<open>
  \<^verbatim>\<open>cmd_videos_update(args, youtube)\<close>: fetch the video, overlay the flags, leave with
  status 1 when nothing changed, else send one update with the whole snippet and status
  and print three lines (the last two read \<^verbatim>\<open>snippet['title']\<close> and
  \<^verbatim>\<open>status['privacyStatus']\<close>, which may be missing).
\<close>

definition video_request :: "string \<Rightarrow> request" where
  "video_request vid = Req ''videos.list'' [(''part'', JStr ''snippet,status''), (''id'', JStr vid)]"

definition update_request :: "string \<Rightarrow> json \<Rightarrow> json \<Rightarrow> request" where
  "update_request vid snippet status =
     Req ''videos.update''
       [(''part'', JStr ''snippet,status''),
        (''body'', JObj [(''id'', JStr vid), (''snippet'', snippet), (''status'', status)])]"

definition nothing_to_update :: "frag list" where
  "nothing_to_update = [Lit ''Nothing to update. Provide at least one field to change.'']"

definition report_updated ::
  "string \<Rightarrow> json \<Rightarrow> json \<Rightarrow> 'w state \<Rightarrow> (error + unit) \<times> 'w state" where
  "report_updated vid snippet status s =
     (case py_getitem snippet ''title'' of
        Inl e \<Rightarrow> (Inl e, print_out [Lit ''Updated: https://youtu.be/'', Lit vid] s)
      | Inr t \<Rightarrow>
          (case py_getitem status ''privacyStatus'' of
             Inl e \<Rightarrow>
               (Inl e, print_out [Lit ''  Title:  '', Val t]
                         (print_out [Lit ''Updated: https://youtu.be/'', Lit vid] s))
           | Inr p \<Rightarrow>
               (Inr (), print_out [Lit ''  Status: '', Val p]
                          (print_out [Lit ''  Title:  '', Val t]
                            (print_out [Lit ''Updated: https://youtu.be/'', Lit vid] s)))))"

definition cmd_videos_update :: "'w api \<Rightarrow> update_args \<Rightarrow> 'w state \<Rightarrow> (error + unit) \<times> 'w state" where
  "cmd_videos_update yt args s =
     (case execute yt (video_request (arg_video_id args)) s of
        (Inl e, s1) \<Rightarrow> (Inl e, s1)
      | (Inr resp, s1) \<Rightarrow>
     (case py_get resp ''items'' JNull of
        Inl e \<Rightarrow> (Inl e, s1)
      | Inr found \<Rightarrow>
          if \<not> truthy found
          then (Inl (SystemExit 1),
                print_err [Lit ''Video not found: '', Lit (arg_video_id args)] s1)
          else
     (case py_getitem resp ''items'' of
        Inl e \<Rightarrow> (Inl e, s1)
      | Inr items \<Rightarrow>
     (case py_getitem0 items of
        Inl e \<Rightarrow> (Inl e, s1)
      | Inr item \<Rightarrow>
     (case py_getitem item ''snippet'' of
        Inl e \<Rightarrow> (Inl e, s1)
      | Inr snippet \<Rightarrow>
     (case py_getitem item ''status'' of
        Inl e \<Rightarrow> (Inl e, s1)
      | Inr status \<Rightarrow>
     (case update_fields args snippet status of
        Inl e \<Rightarrow> (Inl e, s1)
      | Inr (snippet', status', changed) \<Rightarrow>
          if \<not> changed then (Inl (SystemExit 1), print_out nothing_to_update s1)
          else
     (case execute yt (update_request (arg_video_id args) snippet' status') s1 of
        (Inl e, s2) \<Rightarrow> (Inl e, s2)
      | (Inr r, s2) \<Rightarrow> report_updated (arg_video_id args) snippet' status' s2))))))))"

text \<open>
  The exit status of the process: \<^verbatim>\<open>sys.exit(n)\<close> gives \<open>n\<close>; \<^verbatim>\<open>main\<close> turns an
  \<^verbatim>\<open>HttpError\<close> into status 1 and re-raises anything else, which ends the interpreter
  with status 1 as well.
\<close>

fun exit_status :: "error \<Rightarrow> int" where
  "exit_status (SystemExit n) = n"
| "exit_status _ = 1"

section \<open>Bulk update from a CSV file\<close>

text \<open>
  \<^verbatim>\<open>cmd_bulk_update(args, youtube)\<close> on the rows that \<^verbatim>\<open>csv.DictReader\<close> has read
  (reading and parsing the file is the library's work).  A row maps the column names of
  the header to cells; the cell of a row that is shorter than the header is \<^verbatim>\<open>None\<close>.
  \<open>row_get row k\<close> is \<^verbatim>\<open>row.get(k, "")\<close>, and \<^verbatim>\<open>.strip()\<close> of \<^verbatim>\<open>None\<close> raises.
\<close>

type_synonym row = "(string \<times> string option) list"

definition row_get :: "row \<Rightarrow> string \<Rightarrow> string option" where
  "row_get row k = (case map_of row k of None \<Rightarrow> Some [] | Some c \<Rightarrow> c)"

definition cell_strip :: "string option \<Rightarrow> error + string" where
  "cell_strip c = (case c of None \<Rightarrow> Inl AttributeError | Some s \<Rightarrow> Inr (strip s))"

definition cell_json :: "string option \<Rightarrow> json" where
  "cell_json c = (case c of None \<Rightarrow> JNull | Some s \<Rightarrow> JStr s)"

text \<open>
  The five steps on a row.  \<open>assign_cell\<close> is
  \<^verbatim>\<open>if row.get(column, "").strip(): obj[key] = ...; changed = True\<close>; the description
  step is \<^verbatim>\<open>if "description" in row: snippet["description"] = row["description"]\<close>.
\<close>

definition assign_cell ::
  "row \<Rightarrow> string \<Rightarrow> string \<Rightarrow> (string \<Rightarrow> json) \<Rightarrow> json \<times> bool \<Rightarrow> error + json \<times> bool" where
  "assign_cell row column key conv oc =
     (case cell_strip (row_get row column) of
        Inl e \<Rightarrow> Inl e
      | Inr v \<Rightarrow>
          if v = [] then Inr oc
          else (case py_setitem (fst oc) key (conv v) of
                  Inl e \<Rightarrow> Inl e
                | Inr obj \<Rightarrow> Inr (obj, True)))"

definition assign_description :: "row \<Rightarrow> json \<times> bool \<Rightarrow> error + json \<times> bool" where
  "assign_description row oc =
     (case map_of row ''description'' of
        None \<Rightarrow> Inr oc
      | Some c \<Rightarrow>
          (case py_setitem (fst oc) ''description'' (cell_json c) of
             Inl e \<Rightarrow> Inl e
           | Inr obj \<Rightarrow> Inr (obj, True)))"

definition row_fields :: "row \<Rightarrow> json \<Rightarrow> json \<Rightarrow> error + json \<times> json \<times> bool" where
  "row_fields row snippet status =
     (case assign_cell row ''title'' ''title'' JStr (snippet, False) of
        Inl e \<Rightarrow> Inl e
      | Inr (sn1, c1) \<Rightarrow>
     (case assign_description row (sn1, c1) of
        Inl e \<Rightarrow> Inl e
      | Inr (sn2, c2) \<Rightarrow>
     (case assign_cell row ''tags'' ''tags''
             (\<lambda>v. tag_list CHR ''|'' (case row_get row ''tags'' of None \<Rightarrow> [] | Some t \<Rightarrow> t))
             (sn2, c2) of
        Inl e \<Rightarrow> Inl e
      | Inr (sn3, c3) \<Rightarrow>
     (case assign_cell row ''category_id'' ''categoryId'' JStr (sn3, c3) of
        Inl e \<Rightarrow> Inl e
      | Inr (sn4, c4) \<Rightarrow>
     (case assign_cell row ''status'' ''privacyStatus'' JStr (status, c4) of
        Inl e \<Rightarrow> Inl e
      | Inr (st1, c5) \<Rightarrow> Inr (sn4, st1, c5))))))"

text \<open>The slice \<^verbatim>\<open>x[:n]\<close> of a value: strings and lists have one.\<close>

fun py_slice_to :: "nat \<Rightarrow> json \<Rightarrow> error + json" where
  "py_slice_to n (JStr s) = Inr (JStr (take n s))"
| "py_slice_to n (JList xs) = Inr (JList (take n xs))"
| "py_slice_to n _ = Inl TypeError"

text \<open>
  One turn of the loop over the rows.  The loop carries the dict \<open>current\<close> and the two
  counters.  The snippet and status of a video are changed in place inside \<open>current\<close>, so
  a later row with the same id starts from the values the earlier row has sent; the
  model writes them back.  The pause \<^verbatim>\<open>time.sleep(0.15)\<close> has no counterpart here.
\<close>

type_synonym tally = "(json \<times> json) list \<times> nat \<times> nat"

definition bulk_row :: "'w api \<Rightarrow> row \<Rightarrow> tally \<Rightarrow> 'w state \<Rightarrow> (error + tally) \<times> 'w state" where
  "bulk_row yt row acc s =
     (case acc of (current, updated, skipped) \<Rightarrow>
     (case cell_strip (row_get row ''id'') of
        Inl e \<Rightarrow> (Inl e, s)
      | Inr vid_id \<Rightarrow>
     (case (if vid_id = [] then None else map_of current (JStr vid_id)) of
        None \<Rightarrow>
          (Inr (current, updated, skipped + 1),
           print_out [Lit ''  Skip (not found): '', Lit vid_id] s)
      | Some item \<Rightarrow>
     (case py_getitem item ''snippet'' of
        Inl e \<Rightarrow> (Inl e, s)
      | Inr snippet \<Rightarrow>
     (case py_getitem item ''status'' of
        Inl e \<Rightarrow> (Inl e, s)
      | Inr status \<Rightarrow>
     (case row_fields row snippet status of
        Inl e \<Rightarrow> (Inl e, s)
      | Inr (snippet', status', changed) \<Rightarrow>
          if \<not> changed then (Inr (current, updated, skipped + 1), s)
          else
     (case execute yt (update_request vid_id snippet' status') s of
        (Inl e, s1) \<Rightarrow> (Inl e, s1)
      | (Inr r, s1) \<Rightarrow>
     (case py_getitem snippet' ''title'' of
        Inl e \<Rightarrow> (Inl e, s1)
      | Inr t \<Rightarrow>
     (case py_slice_to 55 t of
        Inl e \<Rightarrow> (Inl e, s1)
      | Inr t55 \<Rightarrow>
          (Inr (AList.update (JStr vid_id)
                  (JObj (AList.update ''status'' status'
                     (AList.update ''snippet'' snippet'
                        (case item of JObj d \<Rightarrow> d | _ \<Rightarrow> []))))
                  current,
                updated + 1, skipped),
           print_out [Lit ''  Updated: '', Lit vid_id, Lit ''  '', Val t55] s1))))))))))"

fun bulk_rows :: "'w api \<Rightarrow> row list \<Rightarrow> tally \<Rightarrow> 'w state \<Rightarrow> (error + tally) \<times> 'w state" where
  "bulk_rows yt [] acc s = (Inr acc, s)"
| "bulk_rows yt (row # rows) acc s =
     (case bulk_row yt row acc s of
        (Inl e, s1) \<Rightarrow> (Inl e, s1)
      | (Inr acc1, s1) \<Rightarrow> bulk_rows yt rows acc1 s1)"

text \<open>\<^verbatim>\<open>[r["id"].strip() for r in rows if r.get("id", "").strip()]\<close>\<close>

fun row_ids :: "row list \<Rightarrow> error + string list" where
  "row_ids [] = Inr []"
| "row_ids (r # rs) =
     (case cell_strip (row_get r ''id'') of
        Inl e \<Rightarrow> Inl e
      | Inr v \<Rightarrow>
          (case row_ids rs of
             Inl e \<Rightarrow> Inl e
           | Inr vs \<Rightarrow> Inr (if v \<noteq> [] then v # vs else vs)))"

text \<open>The command; \<open>file\<close> is \<open>None\<close> when the path does not exist.\<close>

definition cmd_bulk_update ::
  "'w api \<Rightarrow> string \<Rightarrow> row list option \<Rightarrow> 'w state \<Rightarrow> (error + unit) \<times> 'w state" where
  "cmd_bulk_update yt csv_file file s =
     (case file of
        None \<Rightarrow> (Inl (SystemExit 1), print_err [Lit ''File not found: '', Lit csv_file] s)
      | Some rows \<Rightarrow>
          if rows = [] then (Inr (), print_out [Lit ''CSV is empty.''] s)
          else if map_of (hd rows) ''id'' = None
          then (Inl (SystemExit 1), print_err [Lit ''CSV must have an 'id' column.''] s)
          else
     (case row_ids rows of
        Inl e \<Rightarrow> (Inl e, s)
      | Inr ids \<Rightarrow>
     (case fetch_video_details yt ids ''snippet,status''
             (print_out [Lit ''Fetching current metadata for '', Val (JInt (int (length ids))),
                         Lit '' videos...''] s) of
        (Inl e, s1) \<Rightarrow> (Inl e, s1)
      | (Inr current, s1) \<Rightarrow>
     (case bulk_rows yt rows (current, 0, 0) s1 of
        (Inl e, s2) \<Rightarrow> (Inl e, s2)
      | (Inr (current', updated, skipped), s2) \<Rightarrow>
          (Inr (), print_out [Lit [CHR 0x0A], Lit ''Done. Updated '', Val (JInt (int updated)),
                              Lit '' videos, skipped '', Val (JInt (int skipped)), Lit ''.''] s2)))))"

text \<open>A cell that makes \<^verbatim>\<open>row.get(column, "").strip()\<close> false: the column is absent, or the
  cell is empty or holds white space only.\<close>

definition blank :: "row \<Rightarrow> string \<Rightarrow> bool" where
  "blank row column = (cell_strip (row_get row column) = Inr [])"

section \<open>The credential store\<close>

text \<open>
  \<^verbatim>\<open>get_service()\<close>.  A credential is the object of the OAuth library; the script reads
  its properties \<^verbatim>\<open>valid\<close>, \<^verbatim>\<open>expired\<close> and \<^verbatim>\<open>refresh_token\<close>.  The first two compare
  the expiry with the clock inside the library; the model takes their values at the time
  of the call as data.  The library and the environment are parameters: whether the
  dependencies are installed, the client secrets file, the refresh call to the
  authorization server and the consent flow in the browser (each may raise, and each may
  change the world), and \<^verbatim>\<open>build\<close>, which makes the client from a credential.  The state
  holds the credential cache \<^verbatim>\<open>credentials.json\<close> (\<open>None\<close> when the file does not exist),
  every credential written to it, the calls made to the authorization server and the
  lines on standard error.  A cache file is taken to hold a credential the library can
  load.
\<close>

record credentials =
  access_token :: string
  valid :: bool
  expired :: bool
  refresh_token :: "string option"

datatype auth_call = RefreshCall | ConsentFlow

record ('w, 'svc) oauth =
  deps_installed :: bool
  client_secrets_path :: string
  client_secrets_exists :: bool
  refresh :: "credentials \<Rightarrow> 'w \<Rightarrow> (string + credentials) \<times> 'w"
  run_local_server :: "'w \<Rightarrow> (string + credentials) \<times> 'w"
  build :: "credentials \<Rightarrow> string + 'svc"

record 'w auth_state =
  auth_world :: 'w
  credentials_file :: "credentials option"
  file_writes :: "credentials list"
  auth_calls :: "auth_call list"
  auth_stderr :: "string list"

text \<open>\<^verbatim>\<open>return build("youtube", "v3", credentials=creds)\<close>, and the two lines before it
  that create the directory and write the cache.\<close>

definition build_service ::
  "('w, 'svc) oauth \<Rightarrow> credentials \<Rightarrow> 'w auth_state \<Rightarrow> (error + 'svc) \<times> 'w auth_state" where
  "build_service lib creds st =
     (case build lib creds of Inl msg \<Rightarrow> (Inl (Raised msg), st) | Inr svc \<Rightarrow> (Inr svc, st))"

definition save_and_build ::
  "('w, 'svc) oauth \<Rightarrow> credentials \<Rightarrow> 'w auth_state \<Rightarrow> (error + 'svc) \<times> 'w auth_state" where
  "save_and_build lib creds st =
     build_service lib creds
       (st\<lparr>credentials_file := Some creds, file_writes := file_writes st @ [creds]\<rparr>)"

definition warn :: "string \<Rightarrow> 'w auth_state \<Rightarrow> 'w auth_state" where
  "warn line st = st\<lparr>auth_stderr := auth_stderr st @ [line]\<rparr>"

text \<open>The branch that needs the browser: it ends the process when there is no client
  secrets file.\<close>

definition consent :: "('w, 'svc) oauth \<Rightarrow> 'w auth_state \<Rightarrow> (error + 'svc) \<times> 'w auth_state" where
  "consent lib st =
     (if \<not> client_secrets_exists lib
      then (Inl (SystemExit 1),
            warn (''Run setup first:'' @ [CHR 0x0A] @ ''  bash scripts/setup.sh'' @ [CHR 0x0A] @
                  ''or follow the manual steps in SKILL.md under 'Authentication'.'')
              (warn ([CHR 0x0A] @ ''No OAuth credentials found at:'' @ [CHR 0x0A] @ ''  '' @
                     client_secrets_path lib @ [CHR 0x0A]) st))
      else
        (case run_local_server lib (auth_world st) of
           (Inl msg, w) \<Rightarrow>
             (Inl (Raised msg),
              (warn ''Opening browser for YouTube authorisation...'' st)
                \<lparr>auth_world := w, auth_calls := auth_calls st @ [ConsentFlow]\<rparr>)
         | (Inr creds, w) \<Rightarrow>
             save_and_build lib creds
               (warn ''Authorisation successful.''
                 ((warn ''Opening browser for YouTube authorisation...'' st)
                    \<lparr>auth_world := w, auth_calls := auth_calls st @ [ConsentFlow]\<rparr>))))"

definition get_service :: "('w, 'svc) oauth \<Rightarrow> 'w auth_state \<Rightarrow> (error + 'svc) \<times> 'w auth_state" where
  "get_service lib st =
     (if \<not> deps_installed lib
      then (Inl (SystemExit 1), warn ''Missing dependencies. Run:  bash scripts/setup.sh'' st)
      else
        (case credentials_file st of
           None \<Rightarrow> consent lib st
         | Some creds \<Rightarrow>
             if valid creds then build_service lib creds st
             else if expired creds \<and> refresh_token creds \<noteq> None \<and> refresh_token creds \<noteq> Some []
             then
               (case refresh lib creds (auth_world st) of
                  (Inl msg, w) \<Rightarrow>
                    (Inl (Raised msg),
                     (warn ''Refreshing credentials...'' st)
                       \<lparr>auth_world := w, auth_calls := auth_calls st @ [RefreshCall]\<rparr>)
                | (Inr creds', w) \<Rightarrow>
                    save_and_build lib creds'
                      ((warn ''Refreshing credentials...'' st)
                         \<lparr>auth_world := w, auth_calls := auth_calls st @ [RefreshCall]\<rparr>))
             else consent lib st))"

section \<open>JSON text\<close>

text \<open>
  The handlers print \<^verbatim>\<open>json.dumps(rows, indent=2)\<close>.  This section models the text
  that Python's \<^verbatim>\<open>json\<close> module writes for a value (with the default
  \<^verbatim>\<open>ensure_ascii=True\<close>, and the separators \<^verbatim>\<open>,\<close> and \<^verbatim>\<open>: \<close> that go with an
  indent), and its reading by \<^verbatim>\<open>json.loads\<close>.  In this section a \<open>char\<close> of a string
  value stands for a code point below 256; other code points and floating point numbers
  are not modelled.

  An integer is written in decimal.  In a string the quote, the backslash and five
  control characters have short escapes, and the other characters outside the printable
  ASCII range are written as a backslash, the letter u and four hexadecimal digits.  A
  non-empty list or dict puts each item on a line of its own, indented by \<open>indent\<close>
  spaces per level.
\<close>

definition digit_char :: "nat \<Rightarrow> char" where
  "digit_char d = char_of (48 + d)"

fun digits_of :: "nat \<Rightarrow> string" where
  "digits_of n = (if n < 10 then [digit_char n] else digits_of (n div 10) @ [digit_char (n mod 10)])"

declare digits_of.simps [simp del]

definition show_int :: "int \<Rightarrow> string" where
  "show_int i = (if i < 0 then CHR ''-'' # digits_of (nat (- i)) else digits_of (nat i))"

definition hex_char :: "nat \<Rightarrow> char" where
  "hex_char d = (if d < 10 then char_of (48 + d) else char_of (87 + d))"

definition escape_char :: "char \<Rightarrow> string" where
  "escape_char c =
     (if c = CHR 0x22 then [CHR 0x5C, CHR 0x22]
      else if c = CHR 0x5C then [CHR 0x5C, CHR 0x5C]
      else if c = CHR 0x0A then [CHR 0x5C, CHR ''n'']
      else if c = CHR 0x0D then [CHR 0x5C, CHR ''r'']
      else if c = CHR 0x09 then [CHR 0x5C, CHR ''t'']
      else if c = CHR 0x08 then [CHR 0x5C, CHR ''b'']
      else if c = CHR 0x0C then [CHR 0x5C, CHR ''f'']
      else if 32 \<le> (of_char c :: nat) \<and> (of_char c :: nat) \<le> 126 then [c]
      else [CHR 0x5C, CHR ''u'', CHR ''0'', CHR ''0'',
            hex_char ((of_char c :: nat) div 16), hex_char ((of_char c :: nat) mod 16)])"

definition encode_string :: "string \<Rightarrow> string" where
  "encode_string s = CHR 0x22 # concat (map escape_char s) @ [CHR 0x22]"

definition newline_indent :: "nat \<Rightarrow> nat \<Rightarrow> string" where
  "newline_indent indent level = CHR 0x0A # replicate (indent * level) CHR '' ''"

fun encode :: "nat \<Rightarrow> nat \<Rightarrow> json \<Rightarrow> string" where
  "encode indent level JNull = ''null''"
| "encode indent level (JBool b) = (if b then ''true'' else ''false'')"
| "encode indent level (JInt i) = show_int i"
| "encode indent level (JStr s) = encode_string s"
| "encode indent level (JList xs) =
     (if xs = [] then ''[]''
      else ''['' @ newline_indent indent (Suc level) @
           join_sep ('','' @ newline_indent indent (Suc level))
             (map (encode indent (Suc level)) xs) @
           newline_indent indent level @ '']'')"
| "encode indent level (JObj kvs) =
     (if kvs = [] then ''{}''
      else ''{'' @ newline_indent indent (Suc level) @
           join_sep ('','' @ newline_indent indent (Suc level))
             (map (\<lambda>kv. encode_string (fst kv) @ '': '' @ encode indent (Suc level) (snd kv)) kvs) @
           newline_indent indent level @ ''}'')"

definition json_dumps :: "nat \<Rightarrow> json \<Rightarrow> string" where
  "json_dumps indent v = encode indent 0 v"

text \<open>
  The reader.  White space may stand before and after every token.  A string may hold
  any character from the space on, and the escapes of the standard; a number is an
  integer without leading zeros (a fraction or an exponent makes it a float, which the
  model refuses); a dict is built from the pairs in order, a repeated key keeping its
  first place and its last value.  The three parsing functions call each other; the
  first argument bounds the depth of the calls, and \<open>json_loads\<close> starts with more than the
  text can need.
\<close>

definition is_ws :: "char \<Rightarrow> bool" where
  "is_ws c = (c = CHR '' '' \<or> c = CHR 0x09 \<or> c = CHR 0x0A \<or> c = CHR 0x0D)"

definition skip_ws :: "string \<Rightarrow> string" where
  "skip_ws inp = dropWhile is_ws inp"

definition is_digit :: "char \<Rightarrow> bool" where
  "is_digit c = (48 \<le> (of_char c :: nat) \<and> (of_char c :: nat) \<le> 57)"

definition digits_value :: "string \<Rightarrow> nat" where
  "digits_value ds = foldl (\<lambda>a c. 10 * a + ((of_char c :: nat) - 48)) 0 ds"

definition hex_value :: "char \<Rightarrow> nat option" where
  "hex_value c =
     (let n = (of_char c :: nat) in
      if 48 \<le> n \<and> n \<le> 57 then Some (n - 48)
      else if 97 \<le> n \<and> n \<le> 102 then Some (n - 87)
      else if 65 \<le> n \<and> n \<le> 70 then Some (n - 55)
      else None)"

definition unescape :: "char \<Rightarrow> char option" where
  "unescape e =
     (if e = CHR 0x22 then Some (CHR 0x22)
      else if e = CHR 0x5C then Some (CHR 0x5C)
      else if e = CHR ''/'' then Some (CHR ''/'')
      else if e = CHR ''b'' then Some (CHR 0x08)
      else if e = CHR ''f'' then Some (CHR 0x0C)
      else if e = CHR ''n'' then Some (CHR 0x0A)
      else if e = CHR ''r'' then Some (CHR 0x0D)
      else if e = CHR ''t'' then Some (CHR 0x09)
      else None)"

definition hex4 :: "string \<Rightarrow> nat option" where
  "hex4 ds =
     (case map hex_value ds of
        [Some x, Some y, Some z, Some w] \<Rightarrow> Some (4096 * x + 256 * y + 16 * z + w)
      | _ \<Rightarrow> None)"

fun scan_string :: "string \<Rightarrow> (string \<times> string) option" where
  "scan_string [] = None"
| "scan_string (c # cs) =
     (if c = CHR 0x22 then Some ([], cs)
      else if c = CHR 0x5C then
        (case cs of
           [] \<Rightarrow> None
         | e # es \<Rightarrow>
             if e = CHR ''u'' then
               (case hex4 (take 4 es) of
                  None \<Rightarrow> None
                | Some n \<Rightarrow>
                    if n < 256
                    then map_option (\<lambda>p. (char_of n # fst p, snd p)) (scan_string (drop 4 es))
                    else None)
             else
               (case unescape e of
                  None \<Rightarrow> None
                | Some u \<Rightarrow> map_option (\<lambda>p. (u # fst p, snd p)) (scan_string es)))
      else if (of_char c :: nat) < 32 then None
      else map_option (\<lambda>p. (c # fst p, snd p)) (scan_string cs))"

definition scan_int :: "string \<Rightarrow> (int \<times> string) option" where
  "scan_int inp =
     (let neg = (inp \<noteq> [] \<and> hd inp = CHR ''-'');
          body = (if neg then tl inp else inp);
          ds = takeWhile is_digit body;
          rest = dropWhile is_digit body
      in if ds = [] then None
         else if hd ds = CHR ''0'' \<and> 1 < length ds then None
         else if rest \<noteq> [] \<and> (hd rest = CHR ''.'' \<or> hd rest = CHR ''e'' \<or> hd rest = CHR ''E'')
         then None
         else Some (if neg then - int (digits_value ds) else int (digits_value ds), rest))"

definition starts_with :: "string \<Rightarrow> string \<Rightarrow> bool" where
  "starts_with p inp = (take (length p) inp = p)"

definition make_dict :: "(string \<times> json) list \<Rightarrow> (string \<times> json) list" where
  "make_dict pairs = foldl (\<lambda>d kv. AList.update (fst kv) (snd kv) d) [] pairs"

fun parse_value :: "nat \<Rightarrow> string \<Rightarrow> (json \<times> string) option"
  and parse_elems :: "nat \<Rightarrow> string \<Rightarrow> (json list \<times> string) option"
  and parse_members :: "nat \<Rightarrow> string \<Rightarrow> ((string \<times> json) list \<times> string) option" where
  "parse_value 0 inp = None"
| "parse_value (Suc n) inp =
     (case skip_ws inp of
        [] \<Rightarrow> None
      | c # cs \<Rightarrow>
          if c = CHR 0x22 then map_option (\<lambda>p. (JStr (fst p), snd p)) (scan_string cs)
          else if c = CHR ''['' then
            (case skip_ws cs of
               [] \<Rightarrow> None
             | d # ds \<Rightarrow>
                 if d = CHR '']'' then Some (JList [], ds)
                 else map_option (\<lambda>p. (JList (fst p), snd p)) (parse_elems n (d # ds)))
          else if c = CHR ''{'' then
            (case skip_ws cs of
               [] \<Rightarrow> None
             | d # ds \<Rightarrow>
                 if d = CHR ''}'' then Some (JObj [], ds)
                 else map_option (\<lambda>p. (JObj (make_dict (fst p)), snd p))
                        (parse_members n (d # ds)))
          else if starts_with ''null'' (c # cs) then Some (JNull, drop 4 (c # cs))
          else if starts_with ''true'' (c # cs) then Some (JBool True, drop 4 (c # cs))
          else if starts_with ''false'' (c # cs) then Some (JBool False, drop 5 (c # cs))
          else map_option (\<lambda>p. (JInt (fst p), snd p)) (scan_int (c # cs)))"
| "parse_elems 0 inp = None"
| "parse_elems (Suc n) inp =
     (case parse_value n inp of
        None \<Rightarrow> None
      | Some (v, r) \<Rightarrow>
          (case skip_ws r of
             [] \<Rightarrow> None
           | c # cs \<Rightarrow>
               if c = CHR '','' then map_option (\<lambda>p. (v # fst p, snd p)) (parse_elems n cs)
               else if c = CHR '']'' then Some ([v], cs)
               else None))"
| "parse_members 0 inp = None"
| "parse_members (Suc n) inp =
     (case skip_ws inp of
        [] \<Rightarrow> None
      | q # cs \<Rightarrow>
          if q \<noteq> CHR 0x22 then None
          else
            (case scan_string cs of
               None \<Rightarrow> None
             | Some (k, r) \<Rightarrow>
                 (case skip_ws r of
                    [] \<Rightarrow> None
                  | c # r1 \<Rightarrow>
                      if c \<noteq> CHR '':'' then None
                      else
                        (case parse_value n r1 of
                           None \<Rightarrow> None
                         | Some (v, r2) \<Rightarrow>
                             (case skip_ws r2 of
                                [] \<Rightarrow> None
                              | d # r3 \<Rightarrow>
                                  if d = CHR '','' then
                                    map_option (\<lambda>p. ((k, v) # fst p, snd p)) (parse_members n r3)
                                  else if d = CHR ''}'' then Some ([(k, v)], r3)
                                  else None)))))"

definition json_loads :: "string \<Rightarrow> json option" where
  "json_loads text =
     (case parse_value (Suc (length text)) text of
        None \<Rightarrow> None
      | Some (v, rest) \<Rightarrow> if skip_ws rest = [] then Some v else None)"

text \<open>The JSON branch of \<^verbatim>\<open>cmd_videos_list\<close> and \<^verbatim>\<open>cmd_export\<close>:
  \<^verbatim>\<open>print(json.dumps(rows, indent=2))\<close>.\<close>

definition render_json :: "json list \<Rightarrow> string" where
  "render_json rows = json_dumps 2 (JList rows) @ [CHR 0x0A]"

section \<open>Runs of the paginator\<close>

lemma reply_result_simps [simp]:
  "reply_result (Inr doc) = Inr doc" "reply_result (Inl msg) = Inl (Raised msg)"
  by (simp_all add: reply_result_def)

lemma reply_result_eq_Inr [simp]: "reply_result r = Inr doc \<longleftrightarrow> r = Inr doc"
  by (cases r) simp_all

lemma Inr_eq_reply_result [simp]: "Inr doc = reply_result r \<longleftrightarrow> r = Inr doc"
  by (cases r) auto

lemma loop_error:
  assumes "method (page_params params np) s = (Inl e, s1)"
  shows "paginate_loop method key limit params acc np s = Some (Inl e, s1)"
  using assms by (subst paginate_loop.simps) simp

lemma loop_stop:
  assumes "method (page_params params np) s = (Inr resp, s1)"
    and "py_get resp key (JList []) = Inr batch"
    and "py_iter batch = Inr xs"
    and "py_get resp ''nextPageToken'' JNull = Inr np'"
    and "\<not> truthy np' \<or> limit_reached limit (acc @ xs)"
  shows "paginate_loop method key limit params acc np s =
         Some (Inr (truncate_collected limit (acc @ xs)), s1)"
  using assms by (subst paginate_loop.simps) auto

lemma loop_more:
  assumes "method (page_params params np) s = (Inr resp, s1)"
    and "py_get resp key (JList []) = Inr batch"
    and "py_iter batch = Inr xs"
    and "py_get resp ''nextPageToken'' JNull = Inr np'"
    and "truthy np'" and "\<not> limit_reached limit (acc @ xs)"
  shows "paginate_loop method key limit params acc np s =
         paginate_loop method key limit (page_params params np) (acc @ xs) np' s1"
  using assms by (subst paginate_loop.simps) auto

lemma page_reply_items: "py_get (page_reply xs tok) ''items'' (JList []) = Inr (JList xs)"
  by (simp add: page_reply_def)

lemma page_reply_token:
  "py_get (page_reply xs tok) ''nextPageToken'' JNull =
   Inr (case tok of None \<Rightarrow> JNull | Some t \<Rightarrow> JStr t)"
  by (simp add: page_reply_def split: option.splits)

lemma list_call_scripted:
  "world s = r # rest \<Longrightarrow>
   list_call scripted name p s =
   (reply_result r, s\<lparr>world := rest, trace := trace s @ [(Req name p, r)]\<rparr>)"
  by (simp add: list_call_def execute_def scripted_def)

lemma list_call_scripted_ok:
  "world s = Inr doc # rest \<Longrightarrow>
   list_call scripted name p s =
   (Inr doc, s\<lparr>world := rest, trace := trace s @ [(Req name p, Inr doc)]\<rparr>)"
  by (simp add: list_call_def execute_def scripted_def)


lemma scripted_stop:
  assumes "world s = Inr (page_reply xs tok) # rest"
    and "tok = None \<or> limit_reached limit (acc @ xs)"
  shows "paginate_loop (list_call scripted name) ''items'' limit params acc np s =
         Some (Inr (truncate_collected limit (acc @ xs)),
               s\<lparr>world := rest,
                 trace := trace s @ [(Req name (page_params params np), Inr (page_reply xs tok))]\<rparr>)"
proof (rule loop_stop [where resp = "page_reply xs tok" and batch = "JList xs"
      and np' = "case tok of None \<Rightarrow> JNull | Some t \<Rightarrow> JStr t"])
  show "list_call scripted name (page_params params np) s =
        (Inr (page_reply xs tok),
         s\<lparr>world := rest,
           trace := trace s @ [(Req name (page_params params np), Inr (page_reply xs tok))]\<rparr>)"
    by (rule list_call_scripted_ok [OF assms(1)])
  show "py_get (page_reply xs tok) ''items'' (JList []) = Inr (JList xs)"
    by (rule page_reply_items)
  show "py_iter (JList xs) = Inr xs" by simp
  show "py_get (page_reply xs tok) ''nextPageToken'' JNull =
        Inr (case tok of None \<Rightarrow> JNull | Some t \<Rightarrow> JStr t)"
    by (rule page_reply_token)
  show "\<not> truthy (case tok of None \<Rightarrow> JNull | Some t \<Rightarrow> JStr t) \<or> limit_reached limit (acc @ xs)"
    using assms(2) by auto
qed

lemma scripted_more:
  assumes "world s = Inr (page_reply xs (Some t)) # rest"
    and "t \<noteq> []" and "\<not> limit_reached limit (acc @ xs)"
  shows "paginate_loop (list_call scripted name) ''items'' limit params acc np s =
         paginate_loop (list_call scripted name) ''items'' limit (page_params params np)
           (acc @ xs) (JStr t)
           (s\<lparr>world := rest,
              trace := trace s @
                [(Req name (page_params params np), Inr (page_reply xs (Some t)))]\<rparr>)"
proof (rule loop_more [where resp = "page_reply xs (Some t)" and batch = "JList xs"])
  show "list_call scripted name (page_params params np) s =
        (Inr (page_reply xs (Some t)),
         s\<lparr>world := rest,
           trace := trace s @
             [(Req name (page_params params np), Inr (page_reply xs (Some t)))]\<rparr>)"
    by (rule list_call_scripted_ok [OF assms(1)])
  show "py_get (page_reply xs (Some t)) ''items'' (JList []) = Inr (JList xs)"
    by (rule page_reply_items)
  show "py_iter (JList xs) = Inr xs" by simp
  show "py_get (page_reply xs (Some t)) ''nextPageToken'' JNull = Inr (JStr t)"
    by (simp add: page_reply_token)
  show "truthy (JStr t)" using assms(2) by simp
  show "\<not> limit_reached limit (acc @ xs)" by (rule assms(3))
qed

lemma loop_mock_pages:
  assumes "world s = mock_pages front final @ rest" and "\<forall>p\<in>set front. snd p \<noteq> []"
  shows "paginate_loop (list_call scripted name) ''items'' limit params acc np s =
     Some (Inr (truncate_collected limit
                  (acc @ concat (take (Suc (stop_index limit acc front)) (map fst front @ [final])))),
           s\<lparr>world := drop (Suc (stop_index limit acc front)) (world s),
             trace := trace s @
               zip (page_requests name params np (take (stop_index limit acc front) (map snd front)))
                   (take (Suc (stop_index limit acc front)) (world s))\<rparr>)"
  using assms
proof (induction front arbitrary: s acc np params)
  case Nil
  have w: "world s = Inr (page_reply final None) # rest"
    using Nil.prems(1) by (simp add: mock_pages_def)
  show ?case
    using scripted_stop [OF w, of limit acc name params np] w by simp
next
  case (Cons p front)
  let ?r = "Inr (page_reply (fst p) (Some (snd p))) :: reply"
  have w: "world s = ?r # (mock_pages front final @ rest)"
    using Cons.prems(1) by (simp add: mock_pages_def)
  have t: "snd p \<noteq> []" using Cons.prems(2) by simp
  let ?s1 = "s\<lparr>world := mock_pages front final @ rest,
                trace := trace s @ [(Req name (page_params params np), ?r)]\<rparr>"
  show ?case
  proof (cases "limit_reached limit (acc @ fst p)")
    case True
    show ?thesis
      using scripted_stop [OF w, of limit acc name params np] True w by simp
  next
    case False
    have step: "paginate_loop (list_call scripted name) ''items'' limit params acc np s =
          paginate_loop (list_call scripted name) ''items'' limit (page_params params np)
            (acc @ fst p) (JStr (snd p)) ?s1"
      by (rule scripted_more [OF w t False])
    have ih: "paginate_loop (list_call scripted name) ''items'' limit (page_params params np)
            (acc @ fst p) (JStr (snd p)) ?s1 = Some (Inr (truncate_collected limit
                  ((acc @ fst p) @ concat (take (Suc (stop_index limit (acc @ fst p) front)) (map fst front @ [final])))),
           ?s1\<lparr>world := drop (Suc (stop_index limit (acc @ fst p) front)) (world ?s1),
             trace := trace ?s1 @
               zip (page_requests name (page_params params np) (JStr (snd p)) (take (stop_index limit (acc @ fst p) front) (map snd front)))
                   (take (Suc (stop_index limit (acc @ fst p) front)) (world ?s1))\<rparr>)"
      using Cons.prems(2) by (intro Cons.IH) simp_all
    show ?thesis
      unfolding step ih using False w by simp
  qed
qed

lemma limit_reached_append:
  "limit_reached limit xs \<Longrightarrow> limit_reached limit (xs @ ys)"
  by (auto simp: limit_reached_def split: option.splits)

lemma stop_index_all:
  "\<not> limit_reached limit (acc @ concat (map fst front)) \<Longrightarrow>
   stop_index limit acc front = length front"
proof (induction front arbitrary: acc)
  case Nil
  show ?case by simp
next
  case (Cons p front)
  have "\<not> limit_reached limit (acc @ fst p)"
    using Cons.prems limit_reached_append [of limit "acc @ fst p" "concat (map fst front)"]
    by auto
  moreover have "stop_index limit (acc @ fst p) front = length front"
    using Cons.prems by (intro Cons.IH) simp
  ultimately show ?case by simp
qed

lemma stop_index_le: "stop_index limit acc front \<le> length front"
  by (induction front arbitrary: acc) auto

lemma stop_index_reached:
  "stop_index limit acc front < length front \<Longrightarrow>
   limit_reached limit (acc @ concat (take (Suc (stop_index limit acc front)) (map fst front)))"
proof (induction front arbitrary: acc)
  case Nil
  then show ?case by simp
next
  case (Cons p front)
  show ?case
  proof (cases "limit_reached limit (acc @ fst p)")
    case True
    then show ?thesis by simp
  next
    case False
    then have "stop_index limit (acc @ fst p) front < length front"
      using Cons.prems by simp
    from Cons.IH [OF this] False show ?thesis by simp
  qed
qed

lemma stop_index_minimal:
  "0 < m \<Longrightarrow> m \<le> stop_index limit acc front \<Longrightarrow>
   \<not> limit_reached limit (acc @ concat (take m (map fst front)))"
proof (induction front arbitrary: acc m)
  case Nil
  then show ?case by simp
next
  case (Cons p front)
  from Cons.prems have nr: "\<not> limit_reached limit (acc @ fst p)"
    by (auto split: if_splits)
  obtain m' where m: "m = Suc m'" using Cons.prems(1) by (cases m) auto
  show ?case
  proof (cases "m' = 0")
    case True
    then show ?thesis using nr m by simp
  next
    case False
    have "\<not> limit_reached limit ((acc @ fst p) @ concat (take m' (map fst front)))"
      using Cons.prems nr m False by (intro Cons.IH) auto
    then show ?thesis using m by simp
  qed
qed

lemma loop_mock_error:
  assumes "world s = map (\<lambda>p. Inr (page_reply (fst p) (Some (snd p)))) front @ Inl msg # rest"
    and "\<forall>p\<in>set front. snd p \<noteq> []"
    and "\<not> limit_reached limit (acc @ concat (map fst front))"
  shows "paginate_loop (list_call scripted name) ''items'' limit params acc np s =
     Some (Inl (Raised msg),
           s\<lparr>world := rest,
             trace := trace s @
               zip (page_requests name params np (map snd front))
                   (take (Suc (length front)) (world s))\<rparr>)"
  using assms
proof (induction front arbitrary: s acc np params)
  case Nil
  have w: "world s = Inl msg # rest" using Nil.prems(1) by simp
  have "list_call scripted name (page_params params np) s =
        (Inl (Raised msg),
         s\<lparr>world := rest, trace := trace s @ [(Req name (page_params params np), Inl msg)]\<rparr>)"
    using list_call_scripted [OF w, of name "page_params params np"] by simp
  then show ?case using w by (simp add: loop_error)
next
  case (Cons p front)
  let ?r = "Inr (page_reply (fst p) (Some (snd p))) :: reply"
  let ?tl = "map (\<lambda>p. Inr (page_reply (fst p) (Some (snd p)))) front @ Inl msg # rest"
  have w: "world s = ?r # ?tl" using Cons.prems(1) by simp
  have t: "snd p \<noteq> []" using Cons.prems(2) by simp
  have nr: "\<not> limit_reached limit (acc @ fst p)"
    using Cons.prems(3) limit_reached_append [of limit "acc @ fst p" "concat (map fst front)"]
    by auto
  let ?s1 = "s\<lparr>world := ?tl, trace := trace s @ [(Req name (page_params params np), ?r)]\<rparr>"
  have step: "paginate_loop (list_call scripted name) ''items'' limit params acc np s =
        paginate_loop (list_call scripted name) ''items'' limit (page_params params np)
          (acc @ fst p) (JStr (snd p)) ?s1"
    by (rule scripted_more [OF w t nr])
  have ih: "paginate_loop (list_call scripted name) ''items'' limit (page_params params np)
          (acc @ fst p) (JStr (snd p)) ?s1 =
        Some (Inl (Raised msg),
           ?s1\<lparr>world := rest,
             trace := trace ?s1 @
               zip (page_requests name (page_params params np) (JStr (snd p)) (map snd front))
                   (take (Suc (length front)) (world ?s1))\<rparr>)"
    using Cons.prems(2,3) by (intro Cons.IH) simp_all
  show ?case unfolding step ih using w by simp
qed

lemma length_page_requests: "length (page_requests name params np ts) = Suc (length ts)"
  by (induction ts arbitrary: params np) auto

text \<open>
  Claim C10.  Called with \<open>limit = 0\<close>, the paginator performs the first list call and
  returns every item of that first page, not the empty list: whatever the service and
  whatever the reply's cursor, the stop test \<^verbatim>\<open>len(collected) >= limit\<close> holds after
  the first page, so the state returned is the one right after that single call, and the
  final expression \<^verbatim>\<open>collected[:limit] if limit else collected\<close> reads \<open>0\<close> as false
  and leaves the page whole.
\<close>

theorem paginate_limit_zero:
  assumes "method params s = (Inr resp, s1)"
    and "py_get resp key (JList []) = Inr batch"
    and "py_iter batch = Inr items"
    and "py_get resp ''nextPageToken'' JNull = Inr np"
  shows "paginate method params key (Some 0) s = Some (Inr items, s1) \<and>
         limit_reached (Some 0) items \<and> truncate_collected (Some 0) items = items"
proof -
  have p: "page_params params JNull = params" by (simp add: page_params_def)
  have r: "limit_reached (Some 0) ([] @ items)" by (simp add: limit_reached_def)
  have "paginate_loop method key (Some 0) params [] JNull s =
        Some (Inr (truncate_collected (Some 0) ([] @ items)), s1)"
    using assms r by (intro loop_stop [where resp = resp and batch = batch and np' = np]) (simp_all add: p)
  then show ?thesis
    by (simp add: paginate_def truncate_collected_def limit_reached_def)
qed

text \<open>The same on a script of two pages: one request is traced, the second page is
  left in the script.\<close>

theorem paginate_limit_zero_witness:
  "paginate (list_call scripted ''playlistItems.list'') [(''maxResults'', JInt 50)] ''items'' (Some 0)
     (init_state (mock_pages [([JStr ''a'', JStr ''b''], ''t1'')] [JStr ''c''])) =
   Some (Inr [JStr ''a'', JStr ''b''],
         \<lparr>world = [Inr (page_reply [JStr ''c''] None)],
          trace = [(Req ''playlistItems.list'' [(''maxResults'', JInt 50)],
                    Inr (page_reply [JStr ''a'', JStr ''b''] (Some ''t1'')))],
          stdout = [], stderr = []\<rparr>)"
  using paginate_limit_zero [of "list_call scripted ''playlistItems.list''"
      "[(''maxResults'', JInt 50)]"
      "init_state (mock_pages [([JStr ''a'', JStr ''b''], ''t1'')] [JStr ''c''])"
      "page_reply [JStr ''a'', JStr ''b''] (Some ''t1'')"
      "\<lparr>world = [Inr (page_reply [JStr ''c''] None)],
          trace = [(Req ''playlistItems.list'' [(''maxResults'', JInt 50)],
                    Inr (page_reply [JStr ''a'', JStr ''b''] (Some ''t1'')))],
          stdout = [], stderr = []\<rparr>"
      "''items''" "JList [JStr ''a'', JStr ''b'']" "[JStr ''a'', JStr ''b'']" "JStr ''t1''"]
  by (simp add: list_call_def execute_def scripted_def init_state_def mock_pages_def page_reply_def)

text \<open>
  Claim C1, at a limit of zero.  A list operation returns the pages \<open>[a, b]\<close> (with a
  cursor) and \<open>[c]\<close>, three items in all.  With \<open>limit = 0\<close> the paginator returns the
  two items of the first page, where a prefix of length zero was promised.
\<close>

theorem paginate_limit_zero_not_empty:
  "paginate (list_call scripted ''playlistItems.list'') [] ''items'' (Some 0)
     (init_state (mock_pages [([JStr ''a'', JStr ''b''], ''t1'')] [JStr ''c''])) =
   Some (Inr [JStr ''a'', JStr ''b''],
         \<lparr>world = [Inr (page_reply [JStr ''c''] None)],
          trace = [(Req ''playlistItems.list'' [],
                    Inr (page_reply [JStr ''a'', JStr ''b''] (Some ''t1'')))],
          stdout = [], stderr = []\<rparr>)"
  by (simp add: paginate_def paginate_loop.simps page_params_def list_call_def execute_def
      scripted_def init_state_def mock_pages_def page_reply_def limit_reached_def
      truncate_collected_def)

text \<open>
  Claim C8.  A list operation answers with the pages of \<open>front\<close>, each with a cursor,
  and then fails with an exception; the limit, if any, is not reached on those
  pages, so the failing call is made.  The paginator then ends with that exception and with
  no item of the pages it had collected.  It has made one call per page and one that
  failed, and none after it: the replies traced are exactly the pages followed by the
  failure, and the rest of the script is untouched.
\<close>

theorem paginate_error_propagates:
  assumes "\<forall>p\<in>set front. snd p \<noteq> []"
    and "\<not> limit_reached limit (concat (map fst front))"
  shows "\<exists>s'. paginate (list_call scripted name) params ''items'' limit
           (init_state (map (\<lambda>p. Inr (page_reply (fst p) (Some (snd p)))) front @ Inl msg # rest)) =
         Some (Inl (Raised msg), s') \<and> world s' = rest \<and>
         length (trace s') = Suc (length front) \<and>
         map snd (trace s') = map (\<lambda>p. Inr (page_reply (fst p) (Some (snd p)))) front @ [Inl msg]"
proof -
  let ?script = "map (\<lambda>p. Inr (page_reply (fst p) (Some (snd p)))) front @ Inl msg # rest"
  have w: "world (init_state ?script) = ?script" by (simp add: init_state_def)
  have nr: "\<not> limit_reached limit ([] @ concat (map fst front))" using assms(2) by simp
  show ?thesis
    unfolding paginate_def loop_mock_error [OF w assms(1) nr]
    by (simp add: init_state_def length_page_requests)
qed

text \<open>One page, then a failure, then a page that is never asked for.\<close>

theorem paginate_error_propagates_witness:
  "\<exists>s'. paginate (list_call scripted ''playlistItems.list'') [] ''items'' None
          (init_state [Inr (page_reply [JStr ''a''] (Some ''t1'')), Inl ''HttpError 503'',
                       Inr (page_reply [JStr ''c''] None)]) =
        Some (Inl (Raised ''HttpError 503''), s') \<and>
        world s' = [Inr (page_reply [JStr ''c''] None)] \<and>
        length (trace s') = 2 \<and>
        map snd (trace s') =
          [Inr (page_reply [JStr ''a''] (Some ''t1'')), Inl ''HttpError 503'']"
  using paginate_error_propagates [of "[([JStr ''a''], ''t1'')]" None
      "''playlistItems.list''" "[]" "''HttpError 503''"
      "[Inr (page_reply [JStr ''c''] None)]"]
  by (simp add: limit_reached_def numeral_2_eq_2)

lemma stop_index_None: "stop_index None acc front = length front"
  by (rule stop_index_all) (simp add: limit_reached_def)

text \<open>
  What the paginator does on a scripted list operation, whatever the name of the call and
  its parameters.  Without a limit it returns the items of all pages in page order, after
  one call per page.
\<close>

lemma paginate_unlimited:
  assumes "\<forall>p\<in>set front. snd p \<noteq> []"
  shows "\<exists>s'. paginate (list_call scripted name) params ''items'' None
                (init_state (mock_pages front final)) =
              Some (Inr (concat (map fst front) @ final), s') \<and>
              world s' = [] \<and> length (trace s') = Suc (length front)"
proof -
  let ?s = "init_state (mock_pages front final)"
  have w: "world ?s = mock_pages front final @ []" by (simp add: init_state_def)
  show ?thesis
    unfolding paginate_def loop_mock_pages [OF w assms] stop_index_None
    by (simp add: init_state_def truncate_collected_def mock_pages_def length_page_requests)
qed

lemma collected_prefix:
  assumes "n < length front"
    and "k \<le> length (concat (take (Suc n) (map fst front)))"
  shows "take k (concat (take (Suc n) (map fst front @ [final]))) =
         take k (concat (map fst front) @ final)"
proof -
  let ?c = "concat (take (Suc n) (map fst front))"
  have "concat (map fst front) = ?c @ concat (drop (Suc n) (map fst front))"
    by (metis append_take_drop_id concat_append)
  then have "concat (map fst front) @ final = ?c @ (concat (drop (Suc n) (map fst front)) @ final)"
    by simp
  moreover have "take (Suc n) (map fst front @ [final]) = take (Suc n) (map fst front)"
    using assms(1) by simp
  ultimately show ?thesis using assms(2) by simp
qed

text \<open>
  With a limit \<open>0 < k\<close> below the number of items it returns the first \<open>k\<close> of them.
  It fetches whole pages: it makes \<open>n + 1\<close> calls, where the pages before call \<open>n + 1\<close>
  hold fewer than \<open>k\<close> items and, unless the script ended, the first \<open>n + 1\<close> pages hold at
  least \<open>k\<close>; the cut to \<open>k\<close> items comes after the last call.
\<close>

lemma paginate_limited:
  assumes "\<forall>p\<in>set front. snd p \<noteq> []"
    and "0 < k" and "k < int (length (concat (map fst front) @ final))"
  shows "\<exists>s' n. paginate (list_call scripted name) params ''items'' (Some k)
                (init_state (mock_pages front final)) =
              Some (Inr (take (nat k) (concat (map fst front) @ final)), s') \<and>
              length (trace s') = Suc n \<and> n \<le> length front \<and>
              (n < length front \<longrightarrow> k \<le> int (length (concat (take (Suc n) (map fst front))))) \<and>
              (\<forall>m. 0 < m \<and> m \<le> n \<longrightarrow> int (length (concat (take m (map fst front)))) < k)"
proof -
  let ?s = "init_state (mock_pages front final)"
  let ?n = "stop_index (Some k) [] front"
  let ?c = "concat (take (Suc ?n) (map fst front @ [final]))"
  have w: "world ?s = mock_pages front final @ []" by (simp add: init_state_def)
  have le: "?n \<le> length front" by (rule stop_index_le)
  have reached: "?n < length front \<Longrightarrow> k \<le> int (length (concat (take (Suc ?n) (map fst front))))"
    using stop_index_reached [of "Some k" "[]" front] by (simp add: limit_reached_def)
  have minimal: "\<forall>m. 0 < m \<and> m \<le> ?n \<longrightarrow> int (length (concat (take m (map fst front)))) < k"
  proof (intro allI impI)
    fix m assume m: "0 < m \<and> m \<le> ?n"
    then have "\<not> limit_reached (Some k) ([] @ concat (take m (map fst front)))"
      by (intro stop_index_minimal) simp_all
    then show "int (length (concat (take m (map fst front)))) < k"
      by (simp add: limit_reached_def)
  qed
  have tk: "take (nat k) ?c = take (nat k) (concat (map fst front) @ final)"
  proof (cases "?n < length front")
    case True
    have "nat k \<le> length (concat (take (Suc ?n) (map fst front)))"
      using reached [OF True] by linarith
    then show ?thesis by (rule collected_prefix [OF True])
  next
    case False
    then have "?n = length front" using le by simp
    then show ?thesis by simp
  qed
  have res: "truncate_collected (Some k) ([] @ ?c) = take (nat k) (concat (map fst front) @ final)"
    using assms(2) tk by (simp add: truncate_collected_def py_take_def)
  have len: "length (zip (page_requests name params JNull (take ?n (map snd front)))
                 (take (Suc ?n) (mock_pages front final))) = Suc ?n"
    using le by (simp add: length_page_requests mock_pages_def)
  let ?s' = "?s\<lparr>world := drop (Suc ?n) (world ?s),
                trace := trace ?s @
                  zip (page_requests name params JNull (take ?n (map snd front)))
                      (take (Suc ?n) (world ?s))\<rparr>"
  have run: "paginate (list_call scripted name) params ''items'' (Some k) ?s =
             Some (Inr (take (nat k) (concat (map fst front) @ final)), ?s')"
    unfolding paginate_def loop_mock_pages [OF w assms(1)] res by simp
  have tr: "length (trace ?s') = Suc ?n"
    using len by (simp add: init_state_def)
  show ?thesis
    using run tr le reached minimal by blast
qed

section \<open>Runs of the batch detail fetcher\<close>

lemma concat_steps:
  "concat (map (\<lambda>i. take n (drop i xs)) (map (\<lambda>j. j * n) [0..<m])) = take (m * n) xs"
proof (induction m)
  case 0
  show ?case by simp
next
  case (Suc m)
  have "take (m * n + n) xs = take (m * n) xs @ take n (drop (m * n) xs)"
    by (rule take_add)
  moreover have "Suc m * n = m * n + n" by simp
  ultimately show ?case using Suc by (simp del: mult_Suc)
qed

lemma ceil_div_50_upper: "(n::nat) \<le> (n + 49) div 50 * 50"
proof -
  have "(n + 49) div 50 * 50 + (n + 49) mod 50 = n + 49" by (rule div_mult_mod_eq)
  moreover have "(n + 49) mod 50 < 50" by simp
  ultimately show ?thesis by linarith
qed

lemma ceil_div_50_lower:
  assumes "j < ((n::nat) + 49) div 50"
  shows "j * 50 < n"
proof -
  have "Suc j * 50 \<le> (n + 49) div 50 * 50" using assms by (intro mult_le_mono1) simp
  also have "\<dots> \<le> n + 49" by (rule div_times_less_eq_dividend)
  finally show ?thesis by simp
qed

lemma concat_video_batches: "concat (video_batches ids) = ids"
  unfolding video_batches_def py_range_step_def concat_steps
  using ceil_div_50_upper [of "length ids"] by simp

lemma length_video_batches: "length (video_batches ids) = (length ids + 49) div 50"
  by (simp add: video_batches_def py_range_step_def)

lemma nth_video_batches:
  assumes "j < length (video_batches ids)"
  shows "video_batches ids ! j = take 50 (drop (j * 50) ids)"
  using assms by (simp add: video_batches_def py_range_step_def)

lemma video_batch_sizes:
  assumes "j < length (video_batches ids)"
  shows "0 < length (video_batches ids ! j) \<and> length (video_batches ids ! j) \<le> 50 \<and>
         (Suc j < length (video_batches ids) \<longrightarrow> length (video_batches ids ! j) = 50)"
proof -
  have j: "j < (length ids + 49) div 50" using assms by (simp add: length_video_batches)
  have a: "j * 50 < length ids" by (rule ceil_div_50_lower [OF j])
  have b: "Suc j < (length ids + 49) div 50 \<Longrightarrow> j * 50 + 50 \<le> length ids"
    using ceil_div_50_lower [of "Suc j" "length ids"] by simp
  have l: "length (video_batches ids ! j) = min (length ids - j * 50) 50"
    unfolding nth_video_batches [OF assms] by simp
  show ?thesis
  proof (cases "Suc j < (length ids + 49) div 50")
    case True
    from b [OF True] have "min (length ids - j * 50) 50 = 50" by simp
    then show ?thesis unfolding l by simp
  next
    case False
    then show ?thesis unfolding l length_video_batches using a by simp
  qed
qed

lemma video_batches_120:
  assumes "length ids = 120"
  shows "map length (video_batches ids) = [50, 50, 20]"
proof -
  have "[0..<3] = [0, 1, Suc 1]" by (simp add: upt_rec numeral_3_eq_3)
  then show ?thesis
    using assms by (simp add: video_batches_def py_range_step_def)
qed

lemma store_items_Cons:
  assumes "store_items d0 (item # rest) = Inr d"
  shows "\<exists>k. item_key item = Some k \<and> store_items (AList.update k item d0) rest = Inr d"
  using assms by (auto simp: item_key_def split: sum.splits if_splits)

lemma store_items_append:
  "store_items d0 (xs @ ys) =
   (case store_items d0 xs of Inl e \<Rightarrow> Inl e | Inr d1 \<Rightarrow> store_items d1 ys)"
  by (induction xs arbitrary: d0) (auto split: sum.splits)

lemma store_items_map_of:
  assumes "store_items d0 items = Inr d"
  shows "map_of d = map_of d0 ++ map_of (rev (keyed items))"
  using assms
proof (induction items arbitrary: d0)
  case Nil
  then show ?case by simp
next
  case (Cons item rest)
  from store_items_Cons [OF Cons.prems] obtain k
    where k: "item_key item = Some k"
      and r: "store_items (AList.update k item d0) rest = Inr d" by blast
  have "map_of d = map_of (AList.update k item d0) ++ map_of (rev (keyed rest))"
    by (rule Cons.IH [OF r])
  then show ?case using k by (simp add: update_conv')
qed

lemma store_items_total:
  assumes "\<forall>item\<in>set items. item_key item \<noteq> None"
  shows "\<exists>d. store_items d0 items = Inr d"
  using assms
proof (induction items arbitrary: d0)
  case Nil
  show ?case by simp
next
  case (Cons item rest)
  then obtain k where k: "item_key item = Some k" by auto
  then have "py_getitem item ''id'' = Inr k \<and> hashable k"
    by (auto simp: item_key_def split: sum.splits if_splits)
  moreover obtain d where "store_items (AList.update k item d0) rest = Inr d"
    using Cons.IH [of "AList.update k item d0"] Cons.prems by auto
  ultimately show ?case by auto
qed

lemma keyed_keys: "fst ` set (keyed items) = {k. \<exists>item\<in>set items. item_key item = Some k}"
  by (induction items) (auto split: option.splits)

lemma map_of_keyed_None:
  "map_of (rev (keyed items)) k = None \<longleftrightarrow> (\<forall>item\<in>set items. item_key item \<noteq> Some k)"
proof -
  have "map_of (rev (keyed items)) k = None \<longleftrightarrow> k \<notin> fst ` set (rev (keyed items))"
    by (rule map_of_eq_None_iff)
  also have "\<dots> \<longleftrightarrow> k \<notin> {k. \<exists>item\<in>set items. item_key item = Some k}"
    by (simp add: keyed_keys)
  finally show ?thesis by auto
qed

lemma fetch_batches_success:
  assumes "fetch_batches yt part batches d0 s = (Inr d, s')"
  shows "\<exists>resps itemss. length resps = length batches \<and>
           trace s' = trace s @ zip (map (details_request part) batches) (map Inr resps) \<and>
           map reply_items resps = map Inr itemss \<and>
           store_items d0 (concat itemss) = Inr d"
  using assms
proof (induction batches arbitrary: d0 s)
  case Nil
  then show ?case by simp
next
  case (Cons batch rest)
  obtain r s1 where ex: "execute yt (details_request part batch) s = (r, s1)"
    by (cases "execute yt (details_request part batch) s") auto
  from Cons.prems ex obtain resp where r: "r = Inr resp"
    by (cases r) auto
  from Cons.prems ex r obtain items where it: "reply_items resp = Inr items"
    by (cases "reply_items resp") auto
  from Cons.prems ex r it obtain d1 where d1: "store_items d0 items = Inr d1"
    by (cases "store_items d0 items") auto
  have rec: "fetch_batches yt part rest d1 s1 = (Inr d, s')"
    using Cons.prems ex r it d1 by simp
  have tr: "trace s1 = trace s @ [(details_request part batch, Inr resp)]"
    using ex r by (auto simp: execute_def split: prod.splits)
  from Cons.IH [OF rec] obtain resps itemss where
    ih: "length resps = length rest"
      "trace s' = trace s1 @ zip (map (details_request part) rest) (map Inr resps)"
      "map reply_items resps = map Inr itemss"
      "store_items d1 (concat itemss) = Inr d" by blast
  have "length (resp # resps) = length (batch # rest)" using ih(1) by simp
  moreover have "trace s' = trace s @
      zip (map (details_request part) (batch # rest)) (map Inr (resp # resps))"
    using ih(2) tr by simp
  moreover have "map reply_items (resp # resps) = map Inr (items # itemss)"
    using ih(3) it by simp
  moreover have "store_items d0 (concat (items # itemss)) = Inr d"
    using ih(4) d1 by (simp add: store_items_append)
  ultimately show ?case by blast
qed

lemma fetch_batches_prefix:
  assumes "fetch_batches yt part batches d0 s = (r, s')"
  shows "\<exists>n\<le>length batches.
           requests s' = requests s @ map (details_request part) (take n batches)"
  using assms
proof (induction batches arbitrary: d0 s)
  case Nil
  then show ?case by simp
next
  case (Cons batch rest)
  obtain r1 s1 where ex: "execute yt (details_request part batch) s = (r1, s1)"
    by (cases "execute yt (details_request part batch) s") auto
  have tr: "requests s1 = requests s @ [details_request part batch]"
    using ex by (auto simp: execute_def requests_def split: prod.splits)
  have one: "\<exists>n\<le>length (batch # rest).
       requests s1 = requests s @ map (details_request part) (take n (batch # rest))"
    using tr by (intro exI [of _ 1]) simp
  show ?case
  proof (cases "\<exists>resp items d1. r1 = Inr resp \<and> reply_items resp = Inr items \<and>
                  store_items d0 items = Inr d1")
    case True
    then obtain resp items d1 where h: "r1 = Inr resp" "reply_items resp = Inr items"
      "store_items d0 items = Inr d1" by blast
    have rec: "fetch_batches yt part rest d1 s1 = (r, s')"
      using Cons.prems ex h by simp
    from Cons.IH [OF rec] obtain n where
      n: "n \<le> length rest" "requests s' = requests s1 @ map (details_request part) (take n rest)"
      by blast
    show ?thesis
      using n tr by (intro exI [of _ "Suc n"]) simp
  next
    case False
    then have "s' = s1"
      using Cons.prems ex by (auto split: sum.splits)
    then show ?thesis using one by simp
  qed
qed

lemma fetch_batches_scripted:
  assumes "length itemss = length batches"
    and "world s = map (\<lambda>items. Inr (page_reply items None)) itemss @ rest"
    and "store_items d0 (concat itemss) = Inr d"
  shows "fetch_batches scripted part batches d0 s =
         (Inr d, s\<lparr>world := rest,
                   trace := trace s @ zip (map (details_request part) batches)
                     (map (\<lambda>items. Inr (page_reply items None)) itemss)\<rparr>)"
  using assms
proof (induction itemss batches arbitrary: d0 s rule: list_induct2)
  case Nil
  then show ?case by simp
next
  case (Cons items itemss batch batches)
  let ?r = "Inr (page_reply items None) :: reply"
  let ?tl = "map (\<lambda>items. Inr (page_reply items None)) itemss @ rest"
  let ?s1 = "s\<lparr>world := ?tl, trace := trace s @ [(details_request part batch, ?r)]\<rparr>"
  have ex: "execute scripted (details_request part batch) s = (Inr (page_reply items None), ?s1)"
    using Cons.prems(1) by (simp add: execute_def scripted_def)
  have it: "reply_items (page_reply items None) = Inr items"
    by (simp add: reply_items_def page_reply_def)
  from Cons.prems(2) obtain d1 where d1: "store_items d0 items = Inr d1"
    and d: "store_items d1 (concat itemss) = Inr d"
    by (auto simp: store_items_append split: sum.splits)
  have "fetch_batches scripted part batches d1 ?s1 =
        (Inr d, ?s1\<lparr>world := rest,
                   trace := trace ?s1 @ zip (map (details_request part) batches)
                     (map (\<lambda>items. Inr (page_reply items None)) itemss)\<rparr>)"
    by (rule Cons.IH [OF _ d]) simp
  then show ?case using ex it d1 by simp
qed

text \<open>
  Claim C2.  Whatever the service, when the fetcher returns a dict: the batches are
  consecutive pieces of the list of ids in the order given, none empty, each of at most
  50 ids and all but the last of exactly 50 (so 120 ids give batches of 50, 50 and 20);
  the calls traced are one \<^verbatim>\<open>videos.list\<close> call per batch, in order, each asking for the
  given \<open>part\<close> and the comma-joined ids of its batch; and the dict returned is the dict
  built from the items of all replies in order, keyed by their ids: it maps an id to the
  last item that carries it.
\<close>

theorem fetch_video_details_batches:
  assumes "fetch_video_details yt video_ids part s = (Inr details, s')"
  shows "concat (video_batches video_ids) = video_ids \<and>
         (\<forall>j<length (video_batches video_ids).
            0 < length (video_batches video_ids ! j) \<and>
            length (video_batches video_ids ! j) \<le> 50 \<and>
            (Suc j < length (video_batches video_ids) \<longrightarrow>
               length (video_batches video_ids ! j) = 50)) \<and>
         (length video_ids = 120 \<longrightarrow> map length (video_batches video_ids) = [50, 50, 20]) \<and>
         (\<exists>resps itemss.
            length resps = length (video_batches video_ids) \<and>
            trace s' = trace s @
              zip (map (details_request part) (video_batches video_ids)) (map Inr resps) \<and>
            map reply_items resps = map Inr itemss \<and>
            store_items [] (concat itemss) = Inr details \<and>
            map_of details = map_of (rev (keyed (concat itemss))))"
proof -
  from fetch_batches_success [OF assms [unfolded fetch_video_details_def]]
  obtain resps itemss where h: "length resps = length (video_batches video_ids)"
    "trace s' = trace s @
       zip (map (details_request part) (video_batches video_ids)) (map Inr resps)"
    "map reply_items resps = map Inr itemss"
    "store_items [] (concat itemss) = Inr details" by blast
  have "map_of details = map_of (rev (keyed (concat itemss)))"
    using store_items_map_of [OF h(4)] by simp
  with h have run: "\<exists>resps itemss.
            length resps = length (video_batches video_ids) \<and>
            trace s' = trace s @
              zip (map (details_request part) (video_batches video_ids)) (map Inr resps) \<and>
            map reply_items resps = map Inr itemss \<and>
            store_items [] (concat itemss) = Inr details \<and>
            map_of details = map_of (rev (keyed (concat itemss)))" by blast
  show ?thesis
    using concat_video_batches video_batch_sizes video_batches_120 run by blast
qed

text \<open>Three ids, one batch, one reply with two of the three videos.\<close>

theorem fetch_video_details_batches_witness:
  "\<exists>resps itemss.
     length resps = length (video_batches [''v1'', ''v2'', ''v3'']) \<and>
     map reply_items resps = map Inr itemss \<and>
     store_items [] (concat itemss) =
       Inr [(JStr ''v1'', JObj [(''id'', JStr ''v1'')]), (JStr ''v3'', JObj [(''id'', JStr ''v3'')])]"
proof -
  have b: "video_batches [''v1'', ''v2'', ''v3''] = [[''v1'', ''v2'', ''v3'']]"
    by (simp add: video_batches_def py_range_step_def)
  have run: "fetch_video_details scripted [''v1'', ''v2'', ''v3''] ''snippet,status''
       (init_state [Inr (page_reply [JObj [(''id'', JStr ''v1'')], JObj [(''id'', JStr ''v3'')]] None)]) =
     (Inr [(JStr ''v1'', JObj [(''id'', JStr ''v1'')]), (JStr ''v3'', JObj [(''id'', JStr ''v3'')])],
      \<lparr>world = [], trace = [(Req ''videos.list'' [(''part'', JStr ''snippet,status''),
                 (''id'', JStr ''v1,v2,v3'')],
               Inr (page_reply [JObj [(''id'', JStr ''v1'')], JObj [(''id'', JStr ''v3'')]] None))],
            stdout = [], stderr = []\<rparr>)"
    by (simp add: fetch_video_details_def b execute_def scripted_def init_state_def
        details_request_def reply_items_def page_reply_def)
  from fetch_video_details_batches [OF run] show ?thesis by blast
qed

text \<open>
  Claim C7.  The service answers the batches with the item lists \<open>itemss\<close>, every item
  carrying an id.  Then the fetcher returns a dict, with no error, whichever ids were
  asked for; a key is absent from the dict exactly when no item of any reply carries it,
  so an id of the request that the service did not return is absent.
\<close>

theorem fetch_video_details_missing_ids:
  assumes "length itemss = length (video_batches video_ids)"
    and "\<forall>item\<in>set (concat itemss). item_key item \<noteq> None"
  shows "\<exists>details s'.
           fetch_video_details scripted video_ids part
             (init_state (map (\<lambda>items. Inr (page_reply items None)) itemss)) =
           (Inr details, s') \<and>
           (\<forall>k. map_of details k = None \<longleftrightarrow>
                (\<forall>item\<in>set (concat itemss). item_key item \<noteq> Some k)) \<and>
           (\<forall>vid\<in>set video_ids.
              (\<forall>item\<in>set (concat itemss). item_key item \<noteq> Some (JStr vid)) \<longrightarrow>
              map_of details (JStr vid) = None)"
proof -
  let ?s = "init_state (map (\<lambda>items. Inr (page_reply items None)) itemss)
            :: reply list state"
  obtain d where d: "store_items [] (concat itemss) = Inr d"
    using store_items_total [OF assms(2)] by blast
  have w: "world ?s = map (\<lambda>items. Inr (page_reply items None)) itemss @ []"
    by (simp add: init_state_def)
  have run: "fetch_video_details scripted video_ids part ?s =
      (Inr d, ?s\<lparr>world := [],
                trace := trace ?s @ zip (map (details_request part) (video_batches video_ids))
                  (map (\<lambda>items. Inr (page_reply items None)) itemss)\<rparr>)"
    unfolding fetch_video_details_def by (rule fetch_batches_scripted [OF assms(1) w d])
  have m: "map_of d = map_of (rev (keyed (concat itemss)))"
    using store_items_map_of [OF d] by simp
  have none: "\<forall>k. map_of d k = None \<longleftrightarrow> (\<forall>item\<in>set (concat itemss). item_key item \<noteq> Some k)"
    unfolding m by (simp add: map_of_keyed_None)
  show ?thesis using run none by blast
qed

text \<open>Of three ids asked for, \<open>v2\<close> is not returned: it is not a key of the result.\<close>

theorem fetch_video_details_missing_ids_witness:
  "\<exists>details s'.
     fetch_video_details scripted [''v1'', ''v2'', ''v3''] ''snippet,status''
       (init_state [Inr (page_reply [JObj [(''id'', JStr ''v1'')], JObj [(''id'', JStr ''v3'')]] None)]) =
     (Inr details, s') \<and>
     map_of details (JStr ''v1'') = Some (JObj [(''id'', JStr ''v1'')]) \<and>
     map_of details (JStr ''v2'') = None"
proof -
  have b: "video_batches [''v1'', ''v2'', ''v3''] = [[''v1'', ''v2'', ''v3'']]"
    by (simp add: video_batches_def py_range_step_def)
  have k: "\<forall>item\<in>set (concat [[JObj [(''id'', JStr ''v1'')], JObj [(''id'', JStr ''v3'')]]]).
             item_key item \<noteq> None"
    by (simp add: item_key_def)
  from fetch_video_details_missing_ids [of "[[JObj [(''id'', JStr ''v1'')], JObj [(''id'', JStr ''v3'')]]]"
      "[''v1'', ''v2'', ''v3'']" "''snippet,status''", OF _ k]
  obtain details s' where h:
    "fetch_video_details scripted [''v1'', ''v2'', ''v3''] ''snippet,status''
       (init_state [Inr (page_reply [JObj [(''id'', JStr ''v1'')], JObj [(''id'', JStr ''v3'')]] None)]) =
     (Inr details, s')"
    "\<forall>k. map_of details k = None \<longleftrightarrow>
       (\<forall>item\<in>set (concat [[JObj [(''id'', JStr ''v1'')], JObj [(''id'', JStr ''v3'')]]]).
          item_key item \<noteq> Some k)"
    by (auto simp: b)
  have "map_of details (JStr ''v2'') = None"
    using h(2) by (simp add: item_key_def)
  moreover have "map_of details (JStr ''v1'') = Some (JObj [(''id'', JStr ''v1'')])"
    using h(1) by (auto simp: fetch_video_details_def b execute_def scripted_def init_state_def
        details_request_def reply_items_def page_reply_def)
  ultimately show ?thesis using h(1) by blast
qed

section \<open>Runs of the update handler\<close>

lemma execute_effect:
  assumes "execute yt req s = (rr, s1)"
  shows "\<exists>r. rr = reply_result r \<and> trace s1 = trace s @ [(req, r)] \<and>
             stdout s1 = stdout s \<and> stderr s1 = stderr s"
  using assms by (auto simp: execute_def split: prod.splits)

lemma exit_status_reply: "reply_result r = Inl e \<Longrightarrow> exit_status e = 1"
  by (cases r) auto

lemma exit_status_py_get: "py_get x k d = Inl e \<Longrightarrow> exit_status e = 1"
  by (cases x) auto

lemma exit_status_py_getitem: "py_getitem x k = Inl e \<Longrightarrow> exit_status e = 1"
  by (cases x) (auto split: option.splits)

lemma exit_status_py_getitem0: "py_getitem0 x = Inl e \<Longrightarrow> exit_status e = 1"
  by (cases x rule: py_getitem0.cases) auto

lemma update_fields_no_flags:
  assumes "arg_title args = None" and "arg_description args = None" and "arg_tags args = None"
    and "arg_category args = None" and "arg_privacy args = None" and "arg_publish_at args = None"
  shows "update_fields args snippet status = Inr (snippet, status, False)"
  using assms by (simp add: update_fields_def assign_if_def)

lemma update_fields_title_only:
  assumes "arg_title args = Some t" and "arg_description args = None" and "arg_tags args = None"
    and "arg_category args = None" and "arg_privacy args = None" and "arg_publish_at args = None"
  shows "update_fields args (JObj sn) status =
         Inr (JObj (AList.update ''title'' (JStr t) sn), status, True)"
  using assms by (simp add: update_fields_def assign_if_def)

text \<open>
  Claim C4.  When none of the six flags is given, the handler fails, whatever the
  service answers: it ends with an exception whose exit status is not zero, and the only
  call it has made is the read of the video, so no update call.  When that read returns
  the video with its snippet and status, the failure is the exit with status 1 after the
  line ``Nothing to update'' on standard output, which is what the specification calls
  \<^verbatim>\<open>NoOpUpdateError\<close>.
\<close>

theorem update_without_flags_fails:
  assumes "arg_title args = None" and "arg_description args = None" and "arg_tags args = None"
    and "arg_category args = None" and "arg_privacy args = None" and "arg_publish_at args = None"
  shows "\<exists>e r s'. cmd_videos_update yt args s = (Inl e, s') \<and> exit_status e \<noteq> 0 \<and>
           trace s' = trace s @ [(video_request (arg_video_id args), r)] \<and>
           (\<forall>resp items item snippet status.
              r = Inr resp \<and> py_getitem resp ''items'' = Inr items \<and> truthy items \<and>
              py_getitem0 items = Inr item \<and> py_getitem item ''snippet'' = Inr snippet \<and>
              py_getitem item ''status'' = Inr status \<longrightarrow>
              e = SystemExit 1 \<and> stdout s' = stdout s @ [nothing_to_update] \<and>
              stderr s' = stderr s)"
proof -
  obtain rr s1 where ex: "execute yt (video_request (arg_video_id args)) s = (rr, s1)"
    by (cases "execute yt (video_request (arg_video_id args)) s") auto
  from execute_effect [OF ex] obtain r where r: "rr = reply_result r"
    and tr: "trace s1 = trace s @ [(video_request (arg_video_id args), r)]"
    and out: "stdout s1 = stdout s" "stderr s1 = stderr s" by blast
  note uf = update_fields_no_flags [OF assms]
  have "\<exists>e s'. cmd_videos_update yt args s = (Inl e, s') \<and> exit_status e = 1 \<and>
          trace s' = trace s1 \<and>
          (\<forall>resp items item snippet status.
              r = Inr resp \<and> py_getitem resp ''items'' = Inr items \<and> truthy items \<and>
              py_getitem0 items = Inr item \<and> py_getitem item ''snippet'' = Inr snippet \<and>
              py_getitem item ''status'' = Inr status \<longrightarrow>
              e = SystemExit 1 \<and> stdout s' = stdout s1 @ [nothing_to_update] \<and>
              stderr s' = stderr s1)"
  proof (cases r)
    case (Inl msg)
    then show ?thesis using ex r by (simp add: cmd_videos_update_def)
  next
    case (Inr resp)
    then have rr: "rr = Inr resp" using r by simp
    show ?thesis
    proof (cases resp)
      case (JObj d)
      show ?thesis
        unfolding cmd_videos_update_def ex rr using Inr JObj
        by (auto simp: uf print_out_def print_err_def
            exit_status_py_getitem exit_status_py_getitem0
            split: sum.splits option.splits)
    qed (use Inr rr ex in \<open>simp_all add: cmd_videos_update_def\<close>)
  qed
  then show ?thesis using tr out by auto
qed

text \<open>The video is found and no flag is given.\<close>

theorem update_without_flags_fails_witness:
  "\<exists>e r s'.
     cmd_videos_update scripted
       \<lparr>arg_video_id = ''v1'', arg_title = None, arg_description = None, arg_tags = None,
        arg_category = None, arg_privacy = None, arg_publish_at = None\<rparr>
       (init_state [Inr (page_reply [JObj [(''id'', JStr ''v1''),
           (''snippet'', JObj [(''title'', JStr ''Old'')]),
           (''status'', JObj [(''privacyStatus'', JStr ''public'')])]] None)]) = (Inl e, s') \<and>
     exit_status e \<noteq> 0 \<and>
     trace s' = [(video_request ''v1'', r)]"
  using update_without_flags_fails [of
      "\<lparr>arg_video_id = ''v1'', arg_title = None, arg_description = None, arg_tags = None,
        arg_category = None, arg_privacy = None, arg_publish_at = None\<rparr>"
      scripted
      "init_state [Inr (page_reply [JObj [(''id'', JStr ''v1''),
           (''snippet'', JObj [(''title'', JStr ''Old'')]),
           (''status'', JObj [(''privacyStatus'', JStr ''public'')])]] None)]"]
  by (simp add: init_state_def) blast

lemma py_getitem0_truthy: "py_getitem0 x = Inr y \<Longrightarrow> truthy x"
  by (cases x rule: py_getitem0.cases) auto

lemma py_getitem_get: "py_getitem x k = Inr v \<Longrightarrow> py_get x k d = Inr v"
  by (cases x) (auto split: option.splits)

lemma map_of_update_other: "k \<noteq> k' \<Longrightarrow> map_of (AList.update k' v al) k = map_of al k"
  by (simp add: update_conv')

lemma map_fst_update:
  "map fst (AList.update k v al) = (if k \<in> fst ` set al then map fst al else map fst al @ [k])"
  by (induction al) auto

text \<open>
  Claim C5.  Only \<^verbatim>\<open>--title\<close> is given and the read returns the video with a snippet
  record and a status.  Then the handler makes exactly two calls, the read and one
  update, and the body of the update carries the video id, the status exactly as fetched
  and a snippet that is the fetched one but for its title: the title is the new one, every
  other key has the value fetched, and the keys stand in the order fetched (a title that
  was missing is added at the end).
\<close>

theorem update_title_only:
  assumes "arg_title args = Some t" and "arg_description args = None" and "arg_tags args = None"
    and "arg_category args = None" and "arg_privacy args = None" and "arg_publish_at args = None"
    and "execute yt (video_request (arg_video_id args)) s = (Inr resp, s1)"
    and "py_getitem resp ''items'' = Inr items" and "py_getitem0 items = Inr item"
    and "py_getitem item ''snippet'' = Inr (JObj snippet)"
    and "py_getitem item ''status'' = Inr status"
  shows "\<exists>res r s' snippet'.
           cmd_videos_update yt args s = (res, s') \<and>
           trace s' = trace s @
             [(video_request (arg_video_id args), Inr resp),
              (update_request (arg_video_id args) (JObj snippet') status, r)] \<and>
           map_of snippet' ''title'' = Some (JStr t) \<and>
           (\<forall>k. k \<noteq> ''title'' \<longrightarrow> map_of snippet' k = map_of snippet k) \<and>
           map fst snippet' =
             (if ''title'' \<in> fst ` set snippet then map fst snippet
              else map fst snippet @ [''title''])"
proof -
  let ?sn = "AList.update ''title'' (JStr t) snippet"
  let ?upd = "update_request (arg_video_id args) (JObj ?sn) status"
  from execute_effect [OF assms(7)]
  have tr1: "trace s1 = trace s @ [(video_request (arg_video_id args), Inr resp)]" by auto
  obtain rr s2 where ex2: "execute yt ?upd s1 = (rr, s2)"
    by (cases "execute yt ?upd s1") auto
  from execute_effect [OF ex2] obtain r where r: "rr = reply_result r"
    and tr2: "trace s2 = trace s1 @ [(?upd, r)]" by blast
  have uf: "update_fields args (JObj snippet) status = Inr (JObj ?sn, status, True)"
    by (rule update_fields_title_only [OF assms(1-6)])
  have found: "py_get resp ''items'' JNull = Inr items" "truthy items"
    using assms(8,9) by (simp_all add: py_getitem_get py_getitem0_truthy)
  have "\<exists>res s'. cmd_videos_update yt args s = (res, s') \<and> trace s' = trace s2"
    unfolding cmd_videos_update_def assms(7) using found assms(8-11) uf ex2
    by (auto simp: report_updated_def print_out_def split: sum.splits)
  then obtain res s' where run: "cmd_videos_update yt args s = (res, s')"
    and tr: "trace s' = trace s2" by blast
  have "trace s' = trace s @ [(video_request (arg_video_id args), Inr resp), (?upd, r)]"
    using tr tr1 tr2 by simp
  moreover have "map_of ?sn ''title'' = Some (JStr t)" by (simp add: update_conv')
  moreover have "\<forall>k. k \<noteq> ''title'' \<longrightarrow> map_of ?sn k = map_of snippet k"
    by (simp add: map_of_update_other)
  moreover note map_fst_update [of "''title''" "JStr t" snippet]
  ultimately show ?thesis using run by blast
qed

text \<open>A video with a title and a description; the description goes out unchanged.\<close>

theorem update_title_only_witness:
  "\<exists>res r s' snippet'.
     cmd_videos_update scripted
       \<lparr>arg_video_id = ''v1'', arg_title = Some ''New'', arg_description = None,
        arg_tags = None, arg_category = None, arg_privacy = None, arg_publish_at = None\<rparr>
       (init_state [Inr (page_reply [JObj [(''id'', JStr ''v1''),
           (''snippet'', JObj [(''title'', JStr ''Old''), (''description'', JStr ''D'')]),
           (''status'', JObj [(''privacyStatus'', JStr ''public'')])]] None),
         Inr (JObj [])]) = (res, s') \<and>
     map snd (trace s') =
       [Inr (page_reply [JObj [(''id'', JStr ''v1''),
           (''snippet'', JObj [(''title'', JStr ''Old''), (''description'', JStr ''D'')]),
           (''status'', JObj [(''privacyStatus'', JStr ''public'')])]] None), r] \<and>
     map fst (trace s') =
       [video_request ''v1'',
        update_request ''v1'' (JObj snippet') (JObj [(''privacyStatus'', JStr ''public'')])] \<and>
     map_of snippet' ''title'' = Some (JStr ''New'') \<and>
     map_of snippet' ''description'' = Some (JStr ''D'') \<and>
     map fst snippet' = [''title'', ''description'']"
proof -
  let ?args = "\<lparr>arg_video_id = ''v1'', arg_title = Some ''New'', arg_description = None,
        arg_tags = None, arg_category = None, arg_privacy = None, arg_publish_at = None\<rparr>"
  let ?item = "JObj [(''id'', JStr ''v1''),
           (''snippet'', JObj [(''title'', JStr ''Old''), (''description'', JStr ''D'')]),
           (''status'', JObj [(''privacyStatus'', JStr ''public'')])]"
  let ?s = "init_state [Inr (page_reply [?item] None), Inr (JObj [])] :: reply list state"
  have ex: "execute scripted (video_request (arg_video_id ?args)) ?s =
      (Inr (page_reply [?item] None),
       \<lparr>world = [Inr (JObj [])],
        trace = [(video_request ''v1'', Inr (page_reply [?item] None))],
        stdout = [], stderr = []\<rparr>)"
    by (simp add: execute_def scripted_def init_state_def)
  from update_title_only [of ?args "''New''" scripted ?s, OF _ _ _ _ _ _ ex,
      of "JList [?item]" ?item "[(''title'', JStr ''Old''), (''description'', JStr ''D'')]"
         "JObj [(''privacyStatus'', JStr ''public'')]"]
  obtain res r s' snippet' where h:
    "cmd_videos_update scripted ?args ?s = (res, s')"
    "trace s' = trace ?s @ [(video_request ''v1'', Inr (page_reply [?item] None)),
              (update_request ''v1'' (JObj snippet') (JObj [(''privacyStatus'', JStr ''public'')]), r)]"
    "map_of snippet' ''title'' = Some (JStr ''New'')"
    "\<forall>k. k \<noteq> ''title'' \<longrightarrow>
        map_of snippet' k = map_of [(''title'', JStr ''Old''), (''description'', JStr ''D'')] k"
    "map fst snippet' = [''title'', ''description'']"
    by (auto simp: page_reply_def)
  have d: "map_of snippet' ''description'' = Some (JStr ''D'')" using h(4) by simp
  have t: "map snd (trace s') = [Inr (page_reply [?item] None), r]"
    "map fst (trace s') = [video_request ''v1'',
        update_request ''v1'' (JObj snippet') (JObj [(''privacyStatus'', JStr ''public'')])]"
    using h(2) by (simp_all add: init_state_def)
  show ?thesis
    by (rule exI [of _ res], rule exI [of _ r], rule exI [of _ s'], rule exI [of _ "snippet'"])
      (simp add: h(1,3,5) d t)
qed

section \<open>Rows of the bulk update\<close>

lemma blank_empty_cell: "map_of row column = Some (Some []) \<Longrightarrow> blank row column"
  by (simp add: blank_def row_get_def cell_strip_def strip_def)

lemma assign_cell_obj:
  assumes "assign_cell row column key conv (JObj d, c) = Inr (obj, c')"
  shows "\<exists>d'. obj = JObj d' \<and> (\<forall>k. k \<noteq> key \<longrightarrow> map_of d' k = map_of d k) \<and>
           (blank row column \<longrightarrow> d' = d \<and> c' = c) \<and> (c \<longrightarrow> c')"
  using assms
  by (auto simp: assign_cell_def blank_def update_conv' split: sum.splits if_splits)

lemma assign_description_obj:
  assumes "assign_description row (JObj d, c) = Inr (obj, c')"
  shows "\<exists>d'. obj = JObj d' \<and> (\<forall>k. k \<noteq> ''description'' \<longrightarrow> map_of d' k = map_of d k) \<and>
           (\<forall>cell. map_of row ''description'' = Some cell \<longrightarrow>
                map_of d' ''description'' = Some (cell_json cell) \<and> c') \<and>
           (map_of row ''description'' = None \<longrightarrow> d' = d \<and> c' = c) \<and> (c \<longrightarrow> c')"
  using assms
  by (auto simp: assign_description_def update_conv' split: option.splits)

lemma sum_case_Inr_iff:
  "((case m of Inl e \<Rightarrow> Inl e | Inr x \<Rightarrow> f x) = Inr y) = (\<exists>x. m = Inr x \<and> f x = Inr y)"
  by (cases m) auto

lemma row_fields_chain:
  assumes "row_fields row snippet status = Inr (snippet', status', changed)"
  shows "\<exists>o1 c1 o2 c2 o3 c3 c4.
     assign_cell row ''title'' ''title'' JStr (snippet, False) = Inr (o1, c1) \<and>
     assign_description row (o1, c1) = Inr (o2, c2) \<and>
     assign_cell row ''tags'' ''tags''
       (\<lambda>v. tag_list CHR ''|'' (case row_get row ''tags'' of None \<Rightarrow> [] | Some t \<Rightarrow> t))
       (o2, c2) = Inr (o3, c3) \<and>
     assign_cell row ''category_id'' ''categoryId'' JStr (o3, c3) = Inr (snippet', c4) \<and>
     assign_cell row ''status'' ''privacyStatus'' JStr (status, c4) = Inr (status', changed)"
  using assms by (simp add: row_fields_def sum_case_Inr_iff)


lemma row_fields_steps:
  assumes "row_fields row (JObj snippet) (JObj status) = Inr (snippet', status', changed)"
  shows "\<exists>sn st.
     snippet' = JObj sn \<and> status' = JObj st \<and>
     (blank row ''title'' \<longrightarrow> map_of sn ''title'' = map_of snippet ''title'') \<and>
     (blank row ''tags'' \<longrightarrow> map_of sn ''tags'' = map_of snippet ''tags'') \<and>
     (blank row ''category_id'' \<longrightarrow> map_of sn ''categoryId'' = map_of snippet ''categoryId'') \<and>
     (blank row ''status'' \<longrightarrow> map_of st ''privacyStatus'' = map_of status ''privacyStatus'') \<and>
     (\<forall>cell. map_of row ''description'' = Some cell \<longrightarrow>
        map_of sn ''description'' = Some (cell_json cell) \<and> changed) \<and>
     (map_of row ''description'' = None \<longrightarrow>
        map_of sn ''description'' = map_of snippet ''description'')"
proof -
  let ?conv = "\<lambda>v::string. tag_list CHR ''|'' (case row_get row ''tags'' of None \<Rightarrow> [] | Some t \<Rightarrow> t)"
  from row_fields_chain [OF assms] obtain o1 c1 o2 c2 o3 c3 c4 where
    s1: "assign_cell row ''title'' ''title'' JStr (JObj snippet, False) = Inr (o1, c1)" and
    s2: "assign_description row (o1, c1) = Inr (o2, c2)" and
    s3: "assign_cell row ''tags'' ''tags'' ?conv (o2, c2) = Inr (o3, c3)" and
    s4: "assign_cell row ''category_id'' ''categoryId'' JStr (o3, c3) = Inr (snippet', c4)" and
    s5: "assign_cell row ''status'' ''privacyStatus'' JStr (JObj status, c4) = Inr (status', changed)"
    by (elim exE conjE) (rule that, assumption+)
  from assign_cell_obj [OF s1] obtain d1 where d1: "o1 = JObj d1"
    "\<forall>k. k \<noteq> ''title'' \<longrightarrow> map_of d1 k = map_of snippet k"
    "blank row ''title'' \<longrightarrow> d1 = snippet" by auto
  from assign_description_obj [OF s2 [unfolded d1(1)]] obtain d2 where d2: "o2 = JObj d2"
    "\<forall>k. k \<noteq> ''description'' \<longrightarrow> map_of d2 k = map_of d1 k"
    "\<forall>cell. map_of row ''description'' = Some cell \<longrightarrow>
        map_of d2 ''description'' = Some (cell_json cell) \<and> c2"
    "map_of row ''description'' = None \<longrightarrow> d2 = d1" by auto
  from assign_cell_obj [OF s3 [unfolded d2(1)]] obtain d3 where d3: "o3 = JObj d3"
    "\<forall>k. k \<noteq> ''tags'' \<longrightarrow> map_of d3 k = map_of d2 k"
    "blank row ''tags'' \<longrightarrow> d3 = d2" "c2 \<longrightarrow> c3" by auto
  from assign_cell_obj [OF s4 [unfolded d3(1)]] obtain d4 where d4: "snippet' = JObj d4"
    "\<forall>k. k \<noteq> ''categoryId'' \<longrightarrow> map_of d4 k = map_of d3 k"
    "blank row ''category_id'' \<longrightarrow> d4 = d3" "c3 \<longrightarrow> c4" by auto
  from assign_cell_obj [OF s5] obtain d5 where d5: "status' = JObj d5"
    "blank row ''status'' \<longrightarrow> d5 = status" "c4 \<longrightarrow> changed" by auto
  have t: "blank row ''title'' \<longrightarrow> map_of d4 ''title'' = map_of snippet ''title''"
    using d1(3) d2(2) d3(2) d4(2) by simp
  have g: "blank row ''tags'' \<longrightarrow> map_of d4 ''tags'' = map_of snippet ''tags''"
    using d1(2) d2(2) d3(3) d4(2) by simp
  have c: "blank row ''category_id'' \<longrightarrow> map_of d4 ''categoryId'' = map_of snippet ''categoryId''"
    using d1(2) d2(2) d3(2) d4(3) by simp
  have p: "blank row ''status'' \<longrightarrow> map_of d5 ''privacyStatus'' = map_of status ''privacyStatus''"
    using d5(2) by simp
  have de: "\<forall>cell. map_of row ''description'' = Some cell \<longrightarrow>
        map_of d4 ''description'' = Some (cell_json cell) \<and> changed"
    using d2(3) d3(2,4) d4(2,4) d5(3) by simp
  have dn: "map_of row ''description'' = None \<longrightarrow>
        map_of d4 ''description'' = map_of snippet ''description''"
    using d1(2) d2(4) d3(2) d4(2) by simp
  show ?thesis
    by (rule exI [of _ d4], rule exI [of _ d5]) (intro conjI d4(1) d5(1) t g c p de dn)
qed

text \<open>
  Claim C6.  A row whose id is found in \<open>current\<close>, with the snippet and status records
  of that video, and whose cells the five steps accept (none of them is the \<^verbatim>\<open>None\<close> of a
  short row).  A blank cell, the empty cell in particular, in the column \<open>title\<close>,
  \<open>tags\<close>, \<open>category_id\<close> or \<open>status\<close> leaves the field \<open>title\<close>, \<open>tags\<close>,
  \<open>categoryId\<close> or \<open>privacyStatus\<close> as it is in \<open>current\<close>.  The column \<open>description\<close>
  is different: whenever the row has it, the description becomes the cell, empty or not,
  and the row counts as changed.  A changed row sends exactly one update, which carries the
  snippet and status so obtained; an unchanged row sends none and is counted as skipped.
\<close>

theorem bulk_row_blank_cells:
  assumes "cell_strip (row_get row ''id'') = Inr vid" and "vid \<noteq> []"
    and "map_of current (JStr vid) = Some item"
    and "py_getitem item ''snippet'' = Inr (JObj snippet)"
    and "py_getitem item ''status'' = Inr (JObj status)"
    and "row_fields row (JObj snippet) (JObj status) = Inr (snippet', status', changed)"
  shows "\<exists>sn st.
     snippet' = JObj sn \<and> status' = JObj st \<and>
     (blank row ''title'' \<longrightarrow> map_of sn ''title'' = map_of snippet ''title'') \<and>
     (blank row ''tags'' \<longrightarrow> map_of sn ''tags'' = map_of snippet ''tags'') \<and>
     (blank row ''category_id'' \<longrightarrow> map_of sn ''categoryId'' = map_of snippet ''categoryId'') \<and>
     (blank row ''status'' \<longrightarrow> map_of st ''privacyStatus'' = map_of status ''privacyStatus'') \<and>
     (\<forall>cell. map_of row ''description'' = Some cell \<longrightarrow>
        map_of sn ''description'' = Some (cell_json cell) \<and> changed) \<and>
     (map_of row ''description'' = None \<longrightarrow>
        map_of sn ''description'' = map_of snippet ''description'') \<and>
     (changed \<longrightarrow>
        (\<exists>res r s'. bulk_row yt row (current, updated, skipped) s = (res, s') \<and>
           trace s' = trace s @ [(update_request vid (JObj sn) (JObj st), r)])) \<and>
     (\<not> changed \<longrightarrow>
        bulk_row yt row (current, updated, skipped) s = (Inr (current, updated, skipped + 1), s))"
proof -
  from row_fields_steps [OF assms(6)] obtain sn st where f:
    "snippet' = JObj sn" "status' = JObj st"
    "blank row ''title'' \<longrightarrow> map_of sn ''title'' = map_of snippet ''title''"
    "blank row ''tags'' \<longrightarrow> map_of sn ''tags'' = map_of snippet ''tags''"
    "blank row ''category_id'' \<longrightarrow> map_of sn ''categoryId'' = map_of snippet ''categoryId''"
    "blank row ''status'' \<longrightarrow> map_of st ''privacyStatus'' = map_of status ''privacyStatus''"
    "\<forall>cell. map_of row ''description'' = Some cell \<longrightarrow>
        map_of sn ''description'' = Some (cell_json cell) \<and> changed"
    "map_of row ''description'' = None \<longrightarrow>
        map_of sn ''description'' = map_of snippet ''description''"
    by (elim exE conjE) (rule that, assumption+)
  let ?upd = "update_request vid (JObj sn) (JObj st)"
  obtain rr s1 where ex: "execute yt ?upd s = (rr, s1)"
    by (cases "execute yt ?upd s") auto
  from execute_effect [OF ex] obtain r where tr: "trace s1 = trace s @ [(?upd, r)]" by blast
  have sent: "changed \<longrightarrow>
        (\<exists>res r s'. bulk_row yt row (current, updated, skipped) s = (res, s') \<and>
           trace s' = trace s @ [(?upd, r)])"
  proof
    assume changed
    then have "\<exists>res s'. bulk_row yt row (current, updated, skipped) s = (res, s') \<and>
                 trace s' = trace s1"
      unfolding bulk_row_def using assms(1-6) f(1,2) ex
      by (auto simp: print_out_def split: sum.splits)
    then show "\<exists>res r s'. bulk_row yt row (current, updated, skipped) s = (res, s') \<and>
           trace s' = trace s @ [(?upd, r)]"
      using tr by auto
  qed
  have kept: "\<not> changed \<longrightarrow>
        bulk_row yt row (current, updated, skipped) s = (Inr (current, updated, skipped + 1), s)"
    unfolding bulk_row_def using assms(1-6) by simp
  show ?thesis
    by (rule exI [of _ sn], rule exI [of _ st]) (intro conjI f sent kept)
qed

text \<open>A row with an id and five empty cells: the update keeps the title, the category and
  the privacy status, has no tags as before, and carries the empty description.\<close>

theorem bulk_row_blank_cells_witness:
  "\<exists>sn st res r s'.
     bulk_row scripted
       [(''id'', Some ''abc''), (''title'', Some ''''), (''description'', Some ''''),
        (''tags'', Some ''''), (''category_id'', Some ''''), (''status'', Some '''')]
       ([(JStr ''abc'', JObj [(''id'', JStr ''abc''),
            (''snippet'', JObj [(''title'', JStr ''Old''), (''description'', JStr ''D''),
                                (''categoryId'', JStr ''22'')]),
            (''status'', JObj [(''privacyStatus'', JStr ''public'')])])], 0, 0)
       (init_state [Inr (JObj [])]) = (res, s') \<and>
     trace s' = [(update_request ''abc'' (JObj sn) (JObj st), r)] \<and>
     map_of sn ''title'' = Some (JStr ''Old'') \<and>
     map_of sn ''tags'' = None \<and>
     map_of sn ''categoryId'' = Some (JStr ''22'') \<and>
     map_of st ''privacyStatus'' = Some (JStr ''public'') \<and>
     map_of sn ''description'' = Some (JStr '''')"
proof -
  let ?row = "[(''id'', Some ''abc''), (''title'', Some ''''), (''description'', Some ''''),
        (''tags'', Some ''''), (''category_id'', Some ''''), (''status'', Some '''')]"
  let ?snippet = "[(''title'', JStr ''Old''), (''description'', JStr ''D''),
                   (''categoryId'', JStr ''22'')]"
  let ?status = "[(''privacyStatus'', JStr ''public'')]"
  let ?item = "JObj [(''id'', JStr ''abc''), (''snippet'', JObj ?snippet), (''status'', JObj ?status)]"
  let ?s = "init_state [Inr (JObj [])] :: reply list state"
  have sp: "strip ''abc'' = ''abc''" "strip [] = []"
    by (simp_all add: strip_def is_space_def)
  have id: "cell_strip (row_get ?row ''id'') = Inr ''abc''"
    by (simp add: cell_strip_def row_get_def sp)
  have rf: "row_fields ?row (JObj ?snippet) (JObj ?status) =
      Inr (JObj [(''title'', JStr ''Old''), (''description'', JStr ''''),
                 (''categoryId'', JStr ''22'')], JObj ?status, True)"
    by (simp add: row_fields_def assign_cell_def assign_description_def cell_strip_def
        row_get_def cell_json_def sp)
  have bl: "blank ?row ''title''" "blank ?row ''tags''" "blank ?row ''category_id''"
    "blank ?row ''status''"
    by (simp_all add: blank_empty_cell)
  have a: "''abc'' \<noteq> []" by simp
  have b: "map_of [(JStr ''abc'', ?item)] (JStr ''abc'') = Some ?item" by simp
  have c: "py_getitem ?item ''snippet'' = Inr (JObj ?snippet)" by simp
  have d: "py_getitem ?item ''status'' = Inr (JObj ?status)" by simp
  from bulk_row_blank_cells [OF id a b c d rf, of scripted 0 0 ?s]
  obtain sn st where h:
    "blank ?row ''title'' \<longrightarrow> map_of sn ''title'' = map_of ?snippet ''title''"
    "blank ?row ''tags'' \<longrightarrow> map_of sn ''tags'' = map_of ?snippet ''tags''"
    "blank ?row ''category_id'' \<longrightarrow> map_of sn ''categoryId'' = map_of ?snippet ''categoryId''"
    "blank ?row ''status'' \<longrightarrow> map_of st ''privacyStatus'' = map_of ?status ''privacyStatus''"
    "\<forall>cell. map_of ?row ''description'' = Some cell \<longrightarrow>
        map_of sn ''description'' = Some (cell_json cell) \<and> True"
    "True \<longrightarrow>
        (\<exists>res r s'. bulk_row scripted ?row ([(JStr ''abc'', ?item)], 0, 0) ?s = (res, s') \<and>
           trace s' = trace ?s @ [(update_request ''abc'' (JObj sn) (JObj st), r)])"
    by (elim exE conjE) (rule that, assumption+)
  from h(6) obtain res r s' where run:
    "bulk_row scripted ?row ([(JStr ''abc'', ?item)], 0, 0) ?s = (res, s')"
    "trace s' = [(update_request ''abc'' (JObj sn) (JObj st), r)]"
    by (auto simp: init_state_def)
  have v: "map_of sn ''title'' = Some (JStr ''Old'')" "map_of sn ''tags'' = None"
    "map_of sn ''categoryId'' = Some (JStr ''22'')"
    "map_of st ''privacyStatus'' = Some (JStr ''public'')"
    "map_of sn ''description'' = Some (JStr '''')"
    using h(1-5) bl by (simp_all add: cell_json_def)
  show ?thesis
    by (rule exI [of _ sn], rule exI [of _ st], rule exI [of _ res], rule exI [of _ r],
        rule exI [of _ s']) (simp add: run v)
qed

section \<open>Runs of the credential store\<close>

text \<open>
  Claim C3.  The dependencies are installed and the cache holds a credential.  If the
  library reports it expired and not valid, it carries a refresh token, and the
  authorization server accepts the refresh, then \<^verbatim>\<open>get_service\<close> makes exactly one call
  to the authorization server, the refresh, and writes the refreshed credential to the
  cache, once.  If the library reports the cached credential valid, \<^verbatim>\<open>get_service\<close>
  leaves the whole state as it was: no call to the authorization server and no write.
\<close>

theorem get_service_cached:
  assumes "deps_installed lib" and "credentials_file st = Some creds"
  shows "(\<not> valid creds \<and> expired creds \<and> refresh_token creds = Some rt \<and> rt \<noteq> [] \<and>
          refresh lib creds (auth_world st) = (Inr creds', w) \<longrightarrow>
            (\<exists>res st'. get_service lib st = (res, st') \<and>
               auth_calls st' = auth_calls st @ [RefreshCall] \<and>
               credentials_file st' = Some creds' \<and>
               file_writes st' = file_writes st @ [creds'] \<and>
               res = (case build lib creds' of Inl msg \<Rightarrow> Inl (Raised msg) | Inr svc \<Rightarrow> Inr svc))) \<and>
         (valid creds \<longrightarrow>
            (\<exists>res. get_service lib st = (res, st) \<and>
               res = (case build lib creds of Inl msg \<Rightarrow> Inl (Raised msg) | Inr svc \<Rightarrow> Inr svc)))"
  using assms
  by (auto simp: get_service_def save_and_build_def build_service_def warn_def
      split: sum.splits)

text \<open>When the authorization server rejects the refresh, the one call is made and the
  cache is left alone.\<close>

lemma get_service_refresh_rejected:
  assumes "deps_installed lib" and "credentials_file st = Some creds"
    and "\<not> valid creds" and "expired creds" and "refresh_token creds = Some rt" and "rt \<noteq> []"
    and "refresh lib creds (auth_world st) = (Inl msg, w)"
  shows "\<exists>st'. get_service lib st = (Inl (Raised msg), st') \<and>
           auth_calls st' = auth_calls st @ [RefreshCall] \<and>
           credentials_file st' = credentials_file st \<and> file_writes st' = file_writes st"
  using assms by (simp add: get_service_def warn_def)


text \<open>An expired credential with a refresh token, and the same credential still valid.\<close>

theorem get_service_cached_witness:
  "(\<exists>res st'.
      get_service
        \<lparr>deps_installed = True, client_secrets_path = ''client_secrets.json'',
         client_secrets_exists = False,
         refresh = (\<lambda>c w. (Inr (c\<lparr>access_token := ''t2'', valid := True, expired := False\<rparr>), w)),
         run_local_server = (\<lambda>w. (Inl ''no browser'', w)),
         build = (\<lambda>c. Inr (access_token c))\<rparr>
        \<lparr>auth_world = (), credentials_file = Some \<lparr>access_token = ''t1'', valid = False,
            expired = True, refresh_token = Some ''r1''\<rparr>,
         file_writes = [], auth_calls = [], auth_stderr = []\<rparr> = (res, st') \<and>
      auth_calls st' = [RefreshCall] \<and>
      credentials_file st' = Some \<lparr>access_token = ''t2'', valid = True, expired = False,
                          refresh_token = Some ''r1''\<rparr> \<and>
      file_writes st' = [\<lparr>access_token = ''t2'', valid = True, expired = False,
                          refresh_token = Some ''r1''\<rparr>] \<and>
      res = Inr ''t2'') \<and>
   get_service
     \<lparr>deps_installed = True, client_secrets_path = ''client_secrets.json'',
      client_secrets_exists = False,
      refresh = (\<lambda>c w. (Inr (c\<lparr>access_token := ''t2'', valid := True, expired := False\<rparr>), w)),
      run_local_server = (\<lambda>w. (Inl ''no browser'', w)),
      build = (\<lambda>c. Inr (access_token c))\<rparr>
     \<lparr>auth_world = (), credentials_file = Some \<lparr>access_token = ''t1'', valid = True,
         expired = False, refresh_token = Some ''r1''\<rparr>,
      file_writes = [], auth_calls = [], auth_stderr = []\<rparr> =
   (Inr ''t1'',
    \<lparr>auth_world = (), credentials_file = Some \<lparr>access_token = ''t1'', valid = True,
         expired = False, refresh_token = Some ''r1''\<rparr>,
      file_writes = [], auth_calls = [], auth_stderr = []\<rparr>)"
proof -
  let ?lib = "\<lparr>deps_installed = True, client_secrets_path = ''client_secrets.json'',
         client_secrets_exists = False,
         refresh = (\<lambda>c (w::unit). (Inr (c\<lparr>access_token := ''t2'', valid := True, expired := False\<rparr>), w)),
         run_local_server = (\<lambda>w. (Inl ''no browser'', w)),
         build = (\<lambda>c. Inr (access_token c) :: string + string)\<rparr>"
  let ?old = "\<lparr>access_token = ''t1'', valid = False, expired = True, refresh_token = Some ''r1''\<rparr>"
  let ?good = "\<lparr>access_token = ''t1'', valid = True, expired = False, refresh_token = Some ''r1''\<rparr>"
  let ?st = "\<lambda>c. \<lparr>auth_world = (), credentials_file = Some c,
         file_writes = [], auth_calls = [], auth_stderr = []\<rparr>"
  have a: "deps_installed ?lib" by simp
  have b: "credentials_file (?st ?old) = Some ?old" "credentials_file (?st ?good) = Some ?good"
    by simp_all
  from get_service_cached [OF a b(1), of "''r1''"
      "\<lparr>access_token = ''t2'', valid = True, expired = False, refresh_token = Some ''r1''\<rparr>" "()"]
  have one: "\<exists>res st'. get_service ?lib (?st ?old) = (res, st') \<and>
      auth_calls st' = [RefreshCall] \<and>
      credentials_file st' = Some \<lparr>access_token = ''t2'', valid = True, expired = False,
                          refresh_token = Some ''r1''\<rparr> \<and>
      file_writes st' = [\<lparr>access_token = ''t2'', valid = True, expired = False,
                          refresh_token = Some ''r1''\<rparr>] \<and>
      res = Inr ''t2''"
    by simp
  from get_service_cached [OF a b(2), of "''r1''" ?good "()"]
  have two: "get_service ?lib (?st ?good) = (Inr ''t1'', ?st ?good)"
    by simp
  show ?thesis using one two by simp
qed

end
